theory Spec2Isabelle
  imports
    Complex_Main
    "HOL-Library.Multiset"
    "HOL-Library.Product_Lexorder"
    "HOL-Library.Char_ord"
    "HOL-Library.List_Lexorder"
begin

section \<open>Python values used by the OCR application\<close>

text \<open>
  Coordinates, anchors, heights and the line-spacing threshold are modelled as exact
  rationals: the development is about which detections are read, how they are ordered
  and where a line breaks, not about rounding. A Python \<open>str\<close> is a \<open>string\<close> whose
  characters are the code points below 256.

  An exception is a value: its class and the message that \<open>str(exc)\<close> yields.
  \<open>OSError\<close> is what the file system raises; \<open>ExternalError\<close> stands for any other
  exception raised by a collaborator outside the two modules (PIL, PyMuPDF, EasyOCR).
\<close>

datatype error =
    ValueError string
  | StatisticsError string
  | OSError string
  | ExternalError string

fun str_exc :: "error \<Rightarrow> string" where
  "str_exc (ValueError m) = m"
| "str_exc (StatisticsError m) = m"
| "str_exc (OSError m) = m"
| "str_exc (ExternalError m) = m"

text \<open>The text slot of a detection tuple holds a \<open>str\<close> or some other object.\<close>

datatype pyobj = PyStr string | PyNone | PyInt int

type_synonym point = "rat \<times> rat"
type_synonym bbox = "point list"
type_synonym detection = "bbox \<times> pyobj \<times> rat"

text \<open>An entry of \<open>sorted_items\<close>: vertical anchor, horizontal anchor, region, text.\<close>

type_synonym item = "rat \<times> rat \<times> bbox \<times> string"

definition item_v :: "item \<Rightarrow> rat" where
  "item_v it = fst it"

definition item_h :: "item \<Rightarrow> rat" where
  "item_h it = fst (snd it)"

definition item_text :: "item \<Rightarrow> string" where
  "item_text it = snd (snd (snd it))"

definition item_key :: "item \<Rightarrow> rat \<times> rat" where
  "item_key it = (item_v it, item_h it)"

subsection \<open>String helpers: \<open>str.isspace\<close>, \<open>str.strip\<close>, \<open>str.join\<close>, \<open>str.lower\<close>\<close>

definition is_space :: "char \<Rightarrow> bool" where
  "is_space c = (of_char c \<in> set [9, 10, 11, 12, 13, 28, 29, 30, 31, 32, 133, 160 :: nat])"

definition strip :: "string \<Rightarrow> string" where
  "strip s = rev (dropWhile is_space (rev (dropWhile is_space s)))"

fun join :: "string \<Rightarrow> string list \<Rightarrow> string" where
  "join sep [] = []"
| "join sep [x] = x"
| "join sep (x # y # ys) = x @ sep @ join sep (y # ys)"

definition lower_char :: "char \<Rightarrow> char" where
  "lower_char c =
     (let n = (of_char c :: nat)
      in if (65 \<le> n \<and> n \<le> 90) \<or> (192 \<le> n \<and> n \<le> 222 \<and> n \<noteq> 215)
         then char_of (n + 32) else c)"

definition lower :: "string \<Rightarrow> string" where
  "lower s = map lower_char s"

subsection \<open>Numeric helpers: \<open>max\<close>, \<open>min\<close>, \<open>numpy.mean\<close>, \<open>statistics.median\<close>\<close>

fun py_max :: "rat list \<Rightarrow> error + rat" where
  "py_max [] = Inl (ValueError ''max() arg is an empty sequence'')"
| "py_max (x # xs) = Inr (fold max xs x)"

fun py_min :: "rat list \<Rightarrow> error + rat" where
  "py_min [] = Inl (ValueError ''min() arg is an empty sequence'')"
| "py_min (x # xs) = Inr (fold min xs x)"

text \<open>
  \<open>numpy.mean\<close> of an empty list is \<open>nan\<close>; here it is \<open>0\<close> (division by zero in HOL).
  \<open>_format_results\<close> reads the height of every region first, which raises on an empty
  region, so it never takes the mean of one.
\<close>

definition mean :: "rat list \<Rightarrow> rat" where
  "mean xs = sum_list xs / of_nat (length xs)"

definition median :: "rat list \<Rightarrow> error + rat" where
  "median xs =
     (let data = sort xs; n = length data
      in if n = 0 then Inl (StatisticsError ''no median for empty data'')
         else if n mod 2 = 1 then Inr (data ! (n div 2))
         else Inr ((data ! (n div 2 - 1) + data ! (n div 2)) / 2))"

section \<open>The Line Reconstructor (\<open>ocr.py\<close>)\<close>

subsection \<open>\<open>_group_by_line\<close>\<close>

text \<open>
  The generator expression: a detection survives when its text is a \<open>str\<close> whose
  stripped form is non-empty; only then are the two means computed.
\<close>

fun make_item :: "detection \<Rightarrow> item option" where
  "make_item (bbox, PyStr text, conf) =
     (if strip text \<noteq> []
      then Some (mean (map snd bbox), mean (map fst bbox), bbox, text)
      else None)"
| "make_item (bbox, other, conf) = None"

definition sorted_items :: "detection list \<Rightarrow> item list" where
  "sorted_items results = sort_key item_key (List.map_filter make_item results)"

text \<open>One iteration of the \<open>for\<close> loop on the list of lines built so far.\<close>

definition group_step :: "rat \<Rightarrow> item list list \<Rightarrow> item \<Rightarrow> item list list" where
  "group_step line_spacing lines it =
     (let prev_line = last lines
      in if \<bar>item_v it - item_v (last prev_line)\<bar> \<le> line_spacing
         then butlast lines @ [prev_line @ [it]]
         else lines @ [[it]])"

definition group_by_line :: "detection list \<Rightarrow> rat \<Rightarrow> item list list" where
  "group_by_line results line_spacing =
     (case sorted_items results of
        [] \<Rightarrow> []
      | first # rest \<Rightarrow> foldl (group_step line_spacing) [[first]] rest)"

subsection \<open>\<open>_format_results\<close>\<close>

fun height :: "bbox \<Rightarrow> error + rat" where
  "height bbox =
     (case py_max (map snd bbox) of
        Inl e \<Rightarrow> Inl e
      | Inr hi \<Rightarrow>
          (case py_min (map snd bbox) of
             Inl e \<Rightarrow> Inl e
           | Inr lo \<Rightarrow> Inr (hi - lo)))"

fun heights :: "detection list \<Rightarrow> error + rat list" where
  "heights [] = Inr []"
| "heights (d # ds) =
     (case height (fst d) of
        Inl e \<Rightarrow> Inl e
      | Inr h \<Rightarrow>
          (case heights ds of
             Inl e \<Rightarrow> Inl e
           | Inr hs \<Rightarrow> Inr (h # hs)))"

definition typical_height :: "detection list \<Rightarrow> error + rat" where
  "typical_height results =
     (case heights results of
        Inl e \<Rightarrow> Inl e
      | Inr hs \<Rightarrow> if hs \<noteq> [] then median hs else Inr 10)"

definition line_spacing :: "detection list \<Rightarrow> error + rat" where
  "line_spacing results =
     (case typical_height results of
        Inl e \<Rightarrow> Inl e
      | Inr th \<Rightarrow> Inr (max (th * (6 / 10)) 8))"

definition line_text :: "item list \<Rightarrow> string" where
  "line_text line = join '' '' (map (\<lambda>segment. strip (item_text segment)) (sort_key item_h line))"

definition output_lines :: "detection list \<Rightarrow> rat \<Rightarrow> string list" where
  "output_lines results spacing = map line_text (group_by_line results spacing)"

definition format_results :: "detection list \<Rightarrow> error + string" where
  "format_results results =
     (if results = [] then Inr []
      else
        (case line_spacing results of
           Inl e \<Rightarrow> Inl e
         | Inr spacing \<Rightarrow> Inr (join [CHR 0x0A] (output_lines results spacing))))"

section \<open>The Engine Session (\<open>_ensure_reader\<close>)\<close>

text \<open>
  An \<open>easyocr.Reader\<close> is represented by the arguments it was constructed with. The
  module global \<open>_reader\<close> is the state threaded through every function that reaches
  \<open>_ensure_reader\<close>: \<open>None\<close> before the first successful construction.
\<close>

record reader =
  lang_list :: "string list"
  gpu :: bool
  model_storage_directory :: string
  user_network_directory :: string
  download_enabled :: bool

type_synonym reader_state = "reader option"

text \<open>
  A \<open>Path\<close> is represented by its parent directory and its final component; the code
  reads only \<open>path.name\<close>, \<open>path.suffix\<close> and whether the file exists or opens.
\<close>

datatype path = Path (parent: string) (name: string)

text \<open>
  The collaborators outside the two modules, as parameters: the location of the model
  folder, whether constructing a reader raises (\<open>None\<close>: it returns), what the reader
  detects on an image (including the conversion to an RGB array), opening an image
  file, opening a PDF as its list of pages, rendering one page to an image, and
  \<open>Path.exists\<close>. The last returns whether the file is there, or raises: it re-raises
  every \<open>OSError\<close> of \<open>stat\<close> other than the few that mean the file is absent (a
  name that is too long, a directory that may not be searched).
\<close>

record ('img, 'page) env =
  model_root :: string
  reader_init :: "reader \<Rightarrow> error option"
  readtext :: "reader \<Rightarrow> 'img \<Rightarrow> error + detection list"
  image_open :: "path \<Rightarrow> error + 'img"
  fitz_open :: "path \<Rightarrow> error + 'page list"
  render_page :: "'page \<Rightarrow> error + 'img"
  path_exists :: "path \<Rightarrow> error + bool"

definition DEFAULT_LANGUAGES :: "string list" where
  "DEFAULT_LANGUAGES = [''en'']"

definition SUPPORTED_IMAGE_EXTENSIONS :: "string set" where
  "SUPPORTED_IMAGE_EXTENSIONS = {''.png'', ''.jpg'', ''.jpeg'', ''.bmp'', ''.tiff'', ''.tif''}"

definition ensure_reader ::
  "('img, 'page) env \<Rightarrow> string list option \<Rightarrow> reader_state \<Rightarrow> (error + reader) \<times> reader_state" where
  "ensure_reader env languages st =
     (case st of
        Some r \<Rightarrow> (Inr r, st)
      | None \<Rightarrow>
          (let langs = (case languages of
                          None \<Rightarrow> DEFAULT_LANGUAGES
                        | Some ls \<Rightarrow> if ls \<noteq> [] then ls else DEFAULT_LANGUAGES);
               r = \<lparr>lang_list = langs, gpu = False,
                    model_storage_directory = model_root env,
                    user_network_directory = model_root env,
                    download_enabled = True\<rparr>
           in case reader_init env r of
                Some e \<Rightarrow> (Inl e, None)
              | None \<Rightarrow> (Inr r, Some r)))"

section \<open>The Document Walker (\<open>ocr.py\<close>)\<close>

definition extract_text_from_image ::
  "('img, 'page) env \<Rightarrow> 'img \<Rightarrow> string list option \<Rightarrow> reader_state \<Rightarrow> (error + string) \<times> reader_state" where
  "extract_text_from_image env img languages st =
     (case ensure_reader env languages st of
        (Inl e, st') \<Rightarrow> (Inl e, st')
      | (Inr rd, st') \<Rightarrow>
          (case readtext env rd img of
             Inl e \<Rightarrow> (Inl e, st')
           | Inr results \<Rightarrow> (format_results results, st')))"

text \<open>The loop over the pages, with the list \<open>texts\<close> built so far.\<close>

fun pdf_pages ::
  "('img, 'page) env \<Rightarrow> 'page list \<Rightarrow> string list option \<Rightarrow> string list \<Rightarrow> reader_state
     \<Rightarrow> (error + string list) \<times> reader_state" where
  "pdf_pages env [] languages texts st = (Inr texts, st)"
| "pdf_pages env (page # pages) languages texts st =
     (case render_page env page of
        Inl e \<Rightarrow> (Inl e, st)
      | Inr img \<Rightarrow>
          (case extract_text_from_image env img languages st of
             (Inl e, st') \<Rightarrow> (Inl e, st')
           | (Inr text, st') \<Rightarrow> pdf_pages env pages languages (texts @ [text]) st'))"

definition extract_text_from_pdf ::
  "('img, 'page) env \<Rightarrow> path \<Rightarrow> string list option \<Rightarrow> reader_state \<Rightarrow> (error + string) \<times> reader_state" where
  "extract_text_from_pdf env pdf_path languages st =
     (case fitz_open env pdf_path of
        Inl e \<Rightarrow> (Inl e, st)
      | Inr document \<Rightarrow>
          (case pdf_pages env document languages [] st of
             (Inl e, st') \<Rightarrow> (Inl e, st')
           | (Inr texts, st') \<Rightarrow>
               (Inr (join [CHR 0x0A, CHR 0x0A] (filter (\<lambda>text. text \<noteq> []) texts)), st')))"

text \<open>\<open>PurePath.suffix\<close>: from the last dot of the name, unless that dot is first or last.\<close>

definition suffix :: "path \<Rightarrow> string" where
  "suffix p =
     (let nm = name p; k = length (takeWhile (\<lambda>c. c \<noteq> CHR ''.'') (rev nm))
      in if k = length nm then []
         else (let i = length nm - 1 - k
               in if 0 < i \<and> i < length nm - 1 then drop i nm else []))"

definition extract_text_from_path ::
  "('img, 'page) env \<Rightarrow> path \<Rightarrow> string list option \<Rightarrow> reader_state \<Rightarrow> (error + string) \<times> reader_state" where
  "extract_text_from_path env p languages st =
     (let sfx = lower (suffix p)
      in if sfx = ''.pdf'' then extract_text_from_pdf env p languages st
         else if sfx \<in> SUPPORTED_IMAGE_EXTENSIONS then
           (case image_open env p of
              Inl e \<Rightarrow> (Inl e, st)
            | Inr img \<Rightarrow> extract_text_from_image env img languages st)
         else (Inl (ValueError (''Unsupported file type: '' @ sfx)), st))"

section \<open>The Batch Driver (\<open>main.py\<close>)\<close>

fun split_on :: "char \<Rightarrow> string \<Rightarrow> string list" where
  "split_on sep [] = [[]]"
| "split_on sep (c # cs) =
     (if c = sep then [] # split_on sep cs
      else (case split_on sep cs of
              [] \<Rightarrow> [[c]]
            | t # ts \<Rightarrow> (c # t) # ts))"

definition normalize_languages :: "string list option \<Rightarrow> string list" where
  "normalize_languages languages =
     (case languages of
        None \<Rightarrow> []
      | Some ls \<Rightarrow>
          if ls = [] then []
          else sorted_list_of_set
                 (fold (\<lambda>lang normalized.
                          fold (\<lambda>token normalized'.
                                  (let cleaned = lower (strip token)
                                   in if cleaned \<noteq> [] then insert cleaned normalized'
                                      else normalized'))
                               (split_on CHR '','' lang) normalized)
                       ls {}))"

text \<open>
  A file reference inside a sequence: a \<open>str\<close> or \<open>Path\<close> (by the path it denotes), or
  a dict or object with its values under \<open>name\<close> and \<open>path\<close> (\<open>None\<close> when the value is
  missing, \<open>None\<close> or empty). The argument \<open>files\<close> itself: a falsy value, one \<open>str\<close> or
  \<open>Path\<close>, a list or tuple, or one other object.
\<close>

datatype file_item = ItemPath path | ItemNamed "path option" "path option"

datatype files_arg = FilesNone | FilesPath path | FilesSeq "file_item list" | FilesOther file_item

fun resolve_items :: "file_item list \<Rightarrow> path list \<Rightarrow> path list" where
  "resolve_items [] resolved = resolved"
| "resolve_items (ItemPath p # rest) resolved = resolve_items rest (resolved @ [p])"
| "resolve_items (ItemNamed nm pth # rest) resolved =
     (case (case nm of Some n \<Rightarrow> Some n | None \<Rightarrow> pth) of
        Some n \<Rightarrow> resolve_items rest (resolved @ [n])
      | None \<Rightarrow> resolve_items rest resolved)"

fun resolve_file_paths :: "files_arg \<Rightarrow> path list" where
  "resolve_file_paths FilesNone = []"
| "resolve_file_paths (FilesPath p) = [p]"
| "resolve_file_paths (FilesSeq items) = (if items = [] then [] else resolve_items items [])"
| "resolve_file_paths (FilesOther it) = resolve_items [it] []"

definition text_or_placeholder :: "string \<Rightarrow> string" where
  "text_or_placeholder text = (if text \<noteq> [] then text else ''(No text detected)'')"

text \<open>
  The loop over \<open>file_paths\<close> with the list \<open>outputs\<close> built so far; \<open>multi\<close> is
  \<open>len(file_paths) > 1\<close>. The call of \<open>path.exists()\<close> stands before the \<open>try\<close>: when
  it raises, the exception leaves the loop. The \<open>except Exception\<close> clause turns the
  walker's error into an entry.
\<close>

fun process_files ::
  "('img, 'page) env \<Rightarrow> bool \<Rightarrow> string list option \<Rightarrow> path list \<Rightarrow> string list \<Rightarrow> reader_state
     \<Rightarrow> (error + string list) \<times> reader_state" where
  "process_files env multi languages_arg [] outputs st = (Inr outputs, st)"
| "process_files env multi languages_arg (p # rest) outputs st =
     (case path_exists env p of
        Inl exc \<Rightarrow> (Inl exc, st)
      | Inr found \<Rightarrow>
          (if \<not> found
           then process_files env multi languages_arg rest
                  (outputs @ [''[warning] File not found: '' @ name p]) st
           else
             (case extract_text_from_path env p languages_arg st of
                (Inl exc, st') \<Rightarrow>
                  process_files env multi languages_arg rest
                    (outputs @ [''[error] Failed to process '' @ name p @ '': '' @ str_exc exc]) st'
              | (Inr text, st') \<Rightarrow>
                  (if multi
                   then process_files env multi languages_arg rest
                          (outputs @ [(''# '' @ name p @ [CHR 0x0A]) @ text_or_placeholder text]) st'
                   else process_files env multi languages_arg rest
                          (outputs @ [text_or_placeholder text]) st'))))"

definition run_ocr_on_files ::
  "('img, 'page) env \<Rightarrow> files_arg \<Rightarrow> string list option \<Rightarrow> reader_state
     \<Rightarrow> (error + string) \<times> reader_state" where
  "run_ocr_on_files env files languages st =
     (let file_paths = resolve_file_paths files
      in if file_paths = [] then (Inr [], st)
         else
           (let requested_languages = normalize_languages languages;
                languages_arg = (if requested_languages \<noteq> [] then Some requested_languages else None)
            in case process_files env (length file_paths > 1) languages_arg file_paths [] st of
                 (Inl exc, st') \<Rightarrow> (Inl exc, st')
               | (Inr outputs, st') \<Rightarrow> (Inr (join [CHR 0x0A, CHR 0x0A] outputs), st')))"

section \<open>Notions used to state the properties\<close>

definition item_bbox :: "item \<Rightarrow> bbox" where
  "item_bbox it = fst (snd (snd it))"

definition survives :: "detection \<Rightarrow> bool" where
  "survives d = (make_item d \<noteq> None)"

definition v_anchor :: "detection \<Rightarrow> rat" where
  "v_anchor d = mean (map snd (fst d))"

definition h_anchor :: "detection \<Rightarrow> rat" where
  "h_anchor d = mean (map fst (fst d))"

definition is_str :: "detection \<Rightarrow> bool" where
  "is_str d = (case fst (snd d) of PyStr s \<Rightarrow> True | _ \<Rightarrow> False)"

definition det_text :: "detection \<Rightarrow> string" where
  "det_text d = (case fst (snd d) of PyStr s \<Rightarrow> s | _ \<Rightarrow> [])"

text \<open>
  The grouping rule in the words of the specification: \<open>cur\<close> is the current Line
  Group, whose last member is the last detection added; the next detection joins it
  when its vertical anchor is within the threshold of that member's, and otherwise
  closes it and seeds a new group.
\<close>

fun spec_greedy :: "rat \<Rightarrow> item list \<Rightarrow> item list \<Rightarrow> item list list" where
  "spec_greedy thr cur [] = [cur]"
| "spec_greedy thr cur (x # xs) =
     (if \<bar>item_v x - item_v (last cur)\<bar> \<le> thr
      then spec_greedy thr (cur @ [x]) xs
      else cur # spec_greedy thr [x] xs)"

definition spec_group :: "rat \<Rightarrow> item list \<Rightarrow> item list list" where
  "spec_group thr items = (case items of [] \<Rightarrow> [] | x # xs \<Rightarrow> spec_greedy thr [x] xs)"

text \<open>Every member is within the threshold of its predecessor in the list.\<close>

fun chain_close :: "rat \<Rightarrow> item list \<Rightarrow> bool" where
  "chain_close thr (x # y # ys) = (\<bar>item_v y - item_v x\<bar> \<le> thr \<and> chain_close thr (y # ys))"
| "chain_close thr ys = True"

text \<open>Every member is more than the threshold away from its predecessor in the list.\<close>

fun chain_apart :: "rat \<Rightarrow> item list \<Rightarrow> bool" where
  "chain_apart thr (x # y # ys) = (\<bar>item_v y - item_v x\<bar> > thr \<and> chain_apart thr (y # ys))"
| "chain_apart thr ys = True"

text \<open>Each group starts more than the threshold away from the end of the group before it.\<close>

fun group_breaks :: "rat \<Rightarrow> item list list \<Rightarrow> bool" where
  "group_breaks thr (g # g' # gs) =
     (\<bar>item_v (hd g') - item_v (last g)\<bar> > thr \<and> group_breaks thr (g' # gs))"
| "group_breaks thr gs = True"

text \<open>The example page of the specification and an axis-aligned square region.\<close>

definition square :: "rat \<Rightarrow> rat \<Rightarrow> rat \<Rightarrow> bbox" where
  "square x y side = [(x, y), (x + side, y), (x + side, y + side), (x, y + side)]"

definition example_page :: "detection list" where
  "example_page =
     [(square 0 0 10, PyStr ''Hello'', 1),
      (square 15 1 10, PyStr ''World'', 1),
      (square 0 50 10, PyStr ''Second'', 1)]"

text \<open>The height of a region, and the error \<open>max\<close> raises on an empty one.\<close>

definition region_height :: "bbox \<Rightarrow> rat" where
  "region_height b = Max (snd ` set b) - Min (snd ` set b)"

definition empty_max_error :: error where
  "empty_max_error = ValueError ''max() arg is an empty sequence''"

text \<open>
  Two lines twenty units apart, with three blank detections of height 100 beside them.
\<close>

definition threshold_probe :: "detection list" where
  "threshold_probe =
     [(square 0 0 10, PyStr ''a'', 1),
      (square 0 20 10, PyStr ''b'', 1),
      (square 0 0 100, PyStr '' '', 1),
      (square 0 0 100, PyStr '' '', 1),
      (square 0 0 100, PyStr '' '', 1)]"

text \<open>Pages for the examples: a tie on both anchors, one line given right to left, three lines.\<close>

definition tie_page :: "detection list" where
  "tie_page = [(square 0 0 10, PyStr ''a'', 1), (square 0 0 10, PyStr ''b'', 1)]"

definition one_line_page :: "detection list" where
  "one_line_page = [(square 15 1 10, PyStr ''World'', 1), (square 0 0 10, PyStr ''Hello'', 1)]"

definition three_lines_page :: "detection list" where
  "three_lines_page =
     [(square 0 40 10, PyStr ''c'', 1), (square 0 0 10, PyStr '' a '', 1), (square 0 20 10, PyStr ''b'', 1)]"

text \<open>A detection whose text slot holds a number.\<close>

definition number_detection :: detection where
  "number_detection = (square 0 30 10, PyInt 7, 1)"

text \<open>
  The languages a first acquire binds, the reader it asks the engine to construct, and a
  sequence of acquires with their results.
\<close>

definition bound_languages :: "string list option \<Rightarrow> string list" where
  "bound_languages languages =
     (case languages of None \<Rightarrow> [''en''] | Some ls \<Rightarrow> if ls = [] then [''en''] else ls)"

definition requested_reader :: "('img, 'page) env \<Rightarrow> string list option \<Rightarrow> reader" where
  "requested_reader env languages =
     \<lparr>lang_list = bound_languages languages, gpu = False,
      model_storage_directory = model_root env,
      user_network_directory = model_root env,
      download_enabled = True\<rparr>"

fun acquire_all ::
  "('img, 'page) env \<Rightarrow> string list option list \<Rightarrow> reader_state \<Rightarrow> (error + reader) list \<times> reader_state" where
  "acquire_all env [] st = ([], st)"
| "acquire_all env (languages # rest) st =
     (case ensure_reader env languages st of
        (r, st') \<Rightarrow> (case acquire_all env rest st' of (rs, st'') \<Rightarrow> (r # rs, st'')))"

text \<open>
  A sample environment: an image or a page is what the engine detects on it; the file
  \<open>missing.png\<close> does not exist, \<open>corrupt.png\<close> does not open, \<open>blank.png\<close> holds only
  white space, any other image is the example page and any PDF has a page reading
  \<open>A\<close> and an empty page. A name longer than 255 characters makes \<open>stat\<close>, and so
  \<open>Path.exists\<close>, raise \<open>OSError\<close>.
\<close>

definition demo_env :: "(detection list, detection list) env" where
  "demo_env =
     \<lparr>model_root = ''models/easyocr'',
      reader_init = (\<lambda>r. None),
      readtext = (\<lambda>r img. Inr img),
      image_open = (\<lambda>p. if name p = ''blank.png'' then Inr [(square 0 0 10, PyStr ''  '', 1)]
                         else if name p = ''corrupt.png''
                         then Inl (ExternalError ''cannot identify image file'')
                         else Inr example_page),
      fitz_open = (\<lambda>p. Inr [[(square 0 0 10, PyStr ''A'', 1)], []]),
      render_page = (\<lambda>pg. Inr pg),
      path_exists = (\<lambda>p. if length (name p) > 255
                          then Inl (OSError ''[Errno 36] File name too long'')
                          else Inr (name p \<noteq> ''missing.png''))\<rparr>"

text \<open>
  The Page Text of one page read with a given reader, the Document Text made from the
  Page Texts, and the language argument the batch driver hands to the walker.
\<close>

definition page_text :: "('img, 'page) env \<Rightarrow> reader \<Rightarrow> 'page \<Rightarrow> error + string" where
  "page_text env rd page =
     (case render_page env page of
        Inl e \<Rightarrow> Inl e
      | Inr img \<Rightarrow>
          (case readtext env rd img of
             Inl e \<Rightarrow> Inl e
           | Inr results \<Rightarrow> format_results results))"

definition document_text :: "string list \<Rightarrow> string" where
  "document_text ts = join [CHR 0x0A, CHR 0x0A] (filter (\<lambda>t. t \<noteq> []) ts)"

definition languages_arg_of :: "string list option \<Rightarrow> string list option" where
  "languages_arg_of languages =
     (if normalize_languages languages \<noteq> [] then Some (normalize_languages languages) else None)"

text \<open>
  What a file contributes to the batch output when \<open>Path.exists\<close> returns: the warning
  when it does not exist, and otherwise the error entry or the text (after the header
  when the batch has several files) of a run of the walker on it. The entries joined by
  a blank line, written out without \<open>join\<close>. A sample batch of five references, one of
  them unresolvable, and a batch whose second file has a name of 300 characters.
\<close>

definition file_entry ::
  "('img, 'page) env \<Rightarrow> bool \<Rightarrow> string list option \<Rightarrow> path \<Rightarrow> string \<Rightarrow> bool" where
  "file_entry env multi languages_arg p out =
     (case path_exists env p of
        Inl exc \<Rightarrow> False
      | Inr found \<Rightarrow>
          (if \<not> found then out = ''[warning] File not found: '' @ name p
           else \<exists>st. (case fst (extract_text_from_path env p languages_arg st) of
                        Inl exc \<Rightarrow>
                          out = ''[error] Failed to process '' @ name p @ '': '' @ str_exc exc
                      | Inr text \<Rightarrow>
                          out = (if multi then ''# '' @ name p @ [CHR 0x0A] else [])
                                  @ text_or_placeholder text)))"

fun blank_line_joined :: "string list \<Rightarrow> string" where
  "blank_line_joined [] = []"
| "blank_line_joined (x # xs) = x @ concat (map (\<lambda>y. [CHR 0x0A, CHR 0x0A] @ y) xs)"

definition long_name_files :: files_arg where
  "long_name_files =
     FilesSeq [ItemPath (Path ''uploads'' ''a.png''),
               ItemPath (Path ''uploads'' (replicate 300 CHR ''a'' @ ''.png'')),
               ItemPath (Path ''uploads'' ''b.png'')]"

definition demo_files :: files_arg where
  "demo_files =
     FilesSeq [ItemPath (Path ''uploads'' ''a.png''),
               ItemPath (Path ''uploads'' ''missing.png''),
               ItemNamed None (Some (Path ''tmp'' ''x.docx'')),
               ItemNamed None None,
               ItemNamed (Some (Path ''tmp'' ''blank.png'')) None]"

text \<open>A page given out of reading order: the bottom line first, then the top line right to left.\<close>

definition shuffled_page :: "detection list" where
  "shuffled_page =
     [(square 0 50 10, PyStr ''Second'', 1),
      (square 30 0 10, PyStr ''right'', 1),
      (square 0 0 10, PyStr ''left'', 1)]"

section \<open>Grouping: the loop and the greedy rule\<close>

lemma group_step_snoc:
  "group_step thr (pre @ [cur]) x =
     (if \<bar>item_v x - item_v (last cur)\<bar> \<le> thr then pre @ [cur @ [x]] else pre @ [cur, [x]])"
  by (simp add: group_step_def)

lemma foldl_group_step:
  "foldl (group_step thr) (pre @ [cur]) xs = pre @ spec_greedy thr cur xs"
proof (induction xs arbitrary: pre cur)
  case Nil
  show ?case by simp
next
  case (Cons x xs)
  show ?case
  proof (cases "\<bar>item_v x - item_v (last cur)\<bar> \<le> thr")
    case True
    then show ?thesis using Cons.IH [of pre "cur @ [x]"] by (simp add: group_step_snoc)
  next
    case False
    then show ?thesis using Cons.IH [of "pre @ [cur]" "[x]"] by (simp add: group_step_snoc)
  qed
qed

lemma group_by_line_spec: "group_by_line results thr = spec_group thr (sorted_items results)"
  using foldl_group_step [of thr "[]"]
  by (simp add: group_by_line_def spec_group_def split: list.splits)

lemma concat_spec_greedy: "concat (spec_greedy thr cur xs) = cur @ xs"
  by (induction xs arbitrary: cur) auto

lemma spec_greedy_nonempty: "cur \<noteq> [] \<Longrightarrow> [] \<notin> set (spec_greedy thr cur xs)"
  by (induction xs arbitrary: cur) auto

lemma chain_close_snoc:
  "cur \<noteq> [] \<Longrightarrow>
   chain_close thr (cur @ [x]) = (chain_close thr cur \<and> \<bar>item_v x - item_v (last cur)\<bar> \<le> thr)"
  by (induction thr cur rule: chain_close.induct) auto

lemma spec_greedy_chain_close:
  "cur \<noteq> [] \<Longrightarrow> chain_close thr cur \<Longrightarrow> g \<in> set (spec_greedy thr cur xs) \<Longrightarrow> chain_close thr g"
proof (induction xs arbitrary: cur)
  case Nil
  then show ?case by simp
next
  case (Cons x xs)
  show ?case
  proof (cases "\<bar>item_v x - item_v (last cur)\<bar> \<le> thr")
    case True
    with Cons.prems have "chain_close thr (cur @ [x])" and "g \<in> set (spec_greedy thr (cur @ [x]) xs)"
      by (simp_all add: chain_close_snoc)
    then show ?thesis using Cons.IH [of "cur @ [x]"] by simp
  next
    case False
    with Cons.prems have "g = cur \<or> g \<in> set (spec_greedy thr [x] xs)" by simp
    then show ?thesis using Cons.IH [of "[x]"] Cons.prems(2) by auto
  qed
qed

lemma spec_greedy_hd: "cur \<noteq> [] \<Longrightarrow> hd (hd (spec_greedy thr cur xs)) = hd cur"
  by (induction xs arbitrary: cur) auto

lemma spec_greedy_not_Nil: "spec_greedy thr cur xs \<noteq> []"
  by (induction xs arbitrary: cur) auto

lemma group_breaks_Cons:
  "gs \<noteq> [] \<Longrightarrow>
   group_breaks thr (g # gs) = (\<bar>item_v (hd (hd gs)) - item_v (last g)\<bar> > thr \<and> group_breaks thr gs)"
  by (cases gs) auto

lemma spec_greedy_breaks: "cur \<noteq> [] \<Longrightarrow> group_breaks thr (spec_greedy thr cur xs)"
proof (induction xs arbitrary: cur)
  case Nil
  show ?case by simp
next
  case (Cons x xs)
  then show ?case
    by (auto simp: group_breaks_Cons spec_greedy_not_Nil spec_greedy_hd)
qed

lemma spec_greedy_all_close:
  "cur \<noteq> [] \<Longrightarrow> chain_close thr (last cur # xs) \<Longrightarrow> spec_greedy thr cur xs = [cur @ xs]"
  by (induction xs arbitrary: cur) auto

lemma spec_greedy_all_apart:
  "cur \<noteq> [] \<Longrightarrow> chain_apart thr (last cur # xs) \<Longrightarrow>
   spec_greedy thr cur xs = cur # map (\<lambda>x. [x]) xs"
  by (induction xs arbitrary: cur) auto

lemma make_item_anchors:
  "make_item d = Some it \<Longrightarrow>
   item_v it = v_anchor d \<and> item_h it = h_anchor d \<and> item_bbox it = fst d \<and>
   fst (snd d) = PyStr (item_text it) \<and> strip (item_text it) \<noteq> []"
  by (cases d rule: make_item.cases)
     (auto simp: item_v_def item_h_def item_bbox_def item_text_def v_anchor_def h_anchor_def
           split: if_splits)

lemma set_map_filter_make_item:
  "set (List.map_filter make_item results) = {it. \<exists>d \<in> set results. make_item d = Some it}"
  by (force simp: map_filter_def)

lemma set_sorted_items:
  "set (sorted_items results) = {it. \<exists>d \<in> set results. make_item d = Some it}"
  by (simp add: sorted_items_def set_map_filter_make_item)

lemma sorted_items_origin:
  assumes "it \<in> set (sorted_items results)"
  shows "\<exists>d \<in> set results. survives d \<and> item_bbox it = fst d \<and> fst (snd d) = PyStr (item_text it) \<and>
           item_v it = v_anchor d \<and> item_h it = h_anchor d"
proof -
  from assms obtain d where d: "d \<in> set results" "make_item d = Some it"
    by (auto simp: set_sorted_items)
  have "survives d" using d(2) by (simp add: survives_def)
  with make_item_anchors [OF d(2)] d(1) show ?thesis by blast
qed

lemma concat_spec_group: "concat (spec_group thr items) = items"
  by (simp add: spec_group_def concat_spec_greedy split: list.splits)

lemma spec_group_nonempty: "[] \<notin> set (spec_group thr items)"
  by (simp add: spec_group_def spec_greedy_nonempty split: list.splits)

lemma spec_group_chain_close: "g \<in> set (spec_group thr items) \<Longrightarrow> chain_close thr g"
proof (cases items)
  case Nil
  assume "g \<in> set (spec_group thr items)"
  with Nil show ?thesis by (simp add: spec_group_def)
next
  case (Cons x xs)
  assume "g \<in> set (spec_group thr items)"
  with Cons have "g \<in> set (spec_greedy thr [x] xs)" by (simp add: spec_group_def)
  then show ?thesis using spec_greedy_chain_close [of "[x]" thr g xs] by simp
qed

lemma spec_group_breaks: "group_breaks thr (spec_group thr items)"
  by (simp add: spec_group_def spec_greedy_breaks split: list.splits)

section \<open>C1: sorting by the anchors, then greedy grouping\<close>

lemma item_key_le:
  "item_key a \<le> item_key b \<longleftrightarrow>
     item_v a < item_v b \<or> (item_v a = item_v b \<and> item_h a \<le> item_h b)"
  by (auto simp: item_key_def)

lemma sorted_items_lexicographic:
  "sorted_wrt (\<lambda>a b. item_v a < item_v b \<or> (item_v a = item_v b \<and> item_h a \<le> item_h b))
     (sorted_items results)"
proof -
  have "sorted (map item_key (sorted_items results))" by (simp add: sorted_items_def)
  then have "sorted_wrt (\<lambda>a b. item_key a \<le> item_key b) (sorted_items results)"
    by (simp add: sorted_map)
  then show ?thesis by (simp add: item_key_le)
qed

lemma sorted_items_stable:
  "filter (\<lambda>it. (item_v it, item_h it) = k) (sorted_items results)
     = filter (\<lambda>it. (item_v it, item_h it) = k) (List.map_filter make_item results)"
  using sort_key_stable [of item_key k "List.map_filter make_item results"]
  by (simp add: sorted_items_def item_key_def)

text \<open>
  Claim C1. \<open>_group_by_line\<close> first sorts the surviving detections ascending by the
  pair (vertical anchor, horizontal anchor), each anchor being the arithmetic mean of
  the region's y- (resp. x-) coordinates, and then groups them in one pass: the first
  detection seeds a group, and each later one joins the current group exactly when its
  vertical anchor is within the threshold of the last detection added to that group,
  and otherwise starts a new group. The order is stated on the anchors themselves: of
  two items the earlier has the smaller vertical anchor, or the same vertical anchor
  and a horizontal anchor that is not larger, and items with the same pair of anchors
  keep their input order. The loop of the source equals the greedy rule of the
  specification; the groups concatenate to the sorted list, none is empty, inside a
  group every step is within the threshold, and every group starts beyond the threshold
  from the end of the group before it. Regions of surviving detections are taken
  non-empty, where the mean is the one numpy computes.
\<close>

theorem group_by_line_sorted_then_greedy:
  assumes "\<forall>d \<in> set results. survives d \<longrightarrow> fst d \<noteq> []"
  shows "sorted_wrt (\<lambda>a b. item_v a < item_v b \<or> (item_v a = item_v b \<and> item_h a \<le> item_h b))
           (sorted_items results) \<and>
     (\<forall>k. filter (\<lambda>it. (item_v it, item_h it) = k) (sorted_items results)
            = filter (\<lambda>it. (item_v it, item_h it) = k) (List.map_filter make_item results)) \<and>
     sorted (map item_key (sorted_items results)) \<and>
     mset (sorted_items results) = mset (List.map_filter make_item results) \<and>
     (\<forall>it \<in> set (sorted_items results).
           \<exists>d \<in> set results. survives d \<and> item_bbox it = fst d \<and> fst (snd d) = PyStr (item_text it) \<and>
             item_v it = v_anchor d \<and> item_h it = h_anchor d \<and>
             item_v it = sum_list (map snd (fst d)) / of_nat (length (fst d)) \<and>
             item_h it = sum_list (map fst (fst d)) / of_nat (length (fst d))) \<and>
     group_by_line results thr = spec_group thr (sorted_items results) \<and>
     concat (group_by_line results thr) = sorted_items results \<and>
     [] \<notin> set (group_by_line results thr) \<and>
     (\<forall>g \<in> set (group_by_line results thr). chain_close thr g) \<and>
     group_breaks thr (group_by_line results thr)"
proof -
  have l: "sorted_wrt (\<lambda>a b. item_v a < item_v b \<or> (item_v a = item_v b \<and> item_h a \<le> item_h b))
           (sorted_items results)"
    by (rule sorted_items_lexicographic)
  have s: "\<forall>k. filter (\<lambda>it. (item_v it, item_h it) = k) (sorted_items results)
            = filter (\<lambda>it. (item_v it, item_h it) = k) (List.map_filter make_item results)"
    by (simp add: sorted_items_stable)
  have a: "sorted (map item_key (sorted_items results))"
    by (simp add: sorted_items_def)
  have b: "mset (sorted_items results) = mset (List.map_filter make_item results)"
    by (simp add: sorted_items_def)
  have c: "\<forall>it \<in> set (sorted_items results).
           \<exists>d \<in> set results. survives d \<and> item_bbox it = fst d \<and> fst (snd d) = PyStr (item_text it) \<and>
             item_v it = v_anchor d \<and> item_h it = h_anchor d \<and>
             item_v it = sum_list (map snd (fst d)) / of_nat (length (fst d)) \<and>
             item_h it = sum_list (map fst (fst d)) / of_nat (length (fst d))"
  proof
    fix it assume "it \<in> set (sorted_items results)"
    from sorted_items_origin [OF this] obtain d where
      "d \<in> set results" "survives d" "item_bbox it = fst d" "fst (snd d) = PyStr (item_text it)"
      "item_v it = v_anchor d" "item_h it = h_anchor d" by blast
    then show "\<exists>d \<in> set results. survives d \<and> item_bbox it = fst d \<and> fst (snd d) = PyStr (item_text it) \<and>
             item_v it = v_anchor d \<and> item_h it = h_anchor d \<and>
             item_v it = sum_list (map snd (fst d)) / of_nat (length (fst d)) \<and>
             item_h it = sum_list (map fst (fst d)) / of_nat (length (fst d))"
      by (auto simp: v_anchor_def h_anchor_def mean_def)
  qed
  have d: "group_by_line results thr = spec_group thr (sorted_items results)"
    by (rule group_by_line_spec)
  have e: "concat (group_by_line results thr) = sorted_items results"
    by (simp add: group_by_line_spec concat_spec_group)
  have f: "[] \<notin> set (group_by_line results thr)"
    by (simp add: group_by_line_spec spec_group_nonempty)
  have g: "\<forall>g \<in> set (group_by_line results thr). chain_close thr g"
    by (simp add: group_by_line_spec spec_group_chain_close)
  have h: "group_breaks thr (group_by_line results thr)"
    by (simp add: group_by_line_spec spec_group_breaks)
  from l s a b c d e f g h show ?thesis by blast
qed

theorem group_by_line_sorted_then_greedy_witness:
  "list_all (\<lambda>d. fst d \<noteq> []) shuffled_page \<and>
   map (\<lambda>d. (v_anchor d, h_anchor d, det_text d)) shuffled_page
     = [(55, 5, ''Second''), (5, 35, ''right''), (5, 5, ''left'')] \<and>
   map (\<lambda>it. (item_v it, item_h it, item_text it)) (sorted_items shuffled_page)
     = [(5, 5, ''left''), (5, 35, ''right''), (55, 5, ''Second'')] \<and>
   sorted_wrt (\<lambda>a b. item_v a < item_v b \<or> (item_v a = item_v b \<and> item_h a \<le> item_h b))
     (sorted_items shuffled_page) \<and>
   group_by_line shuffled_page 8 = spec_group 8 (sorted_items shuffled_page) \<and>
   concat (group_by_line shuffled_page 8) = sorted_items shuffled_page \<and>
   group_breaks 8 (group_by_line shuffled_page 8) \<and>
   map (map item_text) (group_by_line shuffled_page 8) = [[''left'', ''right''], [''Second'']] \<and>
   map (map item_text) (group_by_line example_page 8) = [[''Hello'', ''World''], [''Second'']] \<and>
   map (map item_v) (group_by_line example_page 8) = [[5, 6], [55]]"
proof -
  have h: "\<forall>d \<in> set shuffled_page. survives d \<longrightarrow> fst d \<noteq> []"
    by (simp add: shuffled_page_def square_def)
  have l: "list_all (\<lambda>d. fst d \<noteq> []) shuffled_page"
    by (simp add: shuffled_page_def square_def)
  have i: "map (\<lambda>d. (v_anchor d, h_anchor d, det_text d)) shuffled_page
     = [(55, 5, ''Second''), (5, 35, ''right''), (5, 5, ''left'')]"
    by code_simp
  have s: "map (\<lambda>it. (item_v it, item_h it, item_text it)) (sorted_items shuffled_page)
     = [(5, 5, ''left''), (5, 35, ''right''), (55, 5, ''Second'')]"
    by code_simp
  have t: "map (map item_text) (group_by_line shuffled_page 8) = [[''left'', ''right''], [''Second'']]"
    by code_simp
  have t': "map (map item_text) (group_by_line example_page 8) = [[''Hello'', ''World''], [''Second'']]"
    by code_simp
  have v: "map (map item_v) (group_by_line example_page 8) = [[5, 6], [55]]"
    by code_simp
  from group_by_line_sorted_then_greedy [OF h, of 8] l i s t t' v show ?thesis by blast
qed

section \<open>The line-spacing threshold\<close>

lemma py_max_Max: "xs \<noteq> [] \<Longrightarrow> py_max xs = Inr (Max (set xs))"
  using Max.set_eq_fold [of "hd xs" "tl xs"] by (cases xs) simp_all

lemma py_min_Min: "xs \<noteq> [] \<Longrightarrow> py_min xs = Inr (Min (set xs))"
  using Min.set_eq_fold [of "hd xs" "tl xs"] by (cases xs) simp_all

lemma height_region:
  "height b = (if b = [] then Inl empty_max_error else Inr (region_height b))"
  by (simp add: py_max_Max py_min_Min region_height_def empty_max_error_def)

lemma heights_char:
  "heights ds =
     (if \<exists>d \<in> set ds. fst d = [] then Inl empty_max_error
      else Inr (map (\<lambda>d. region_height (fst d)) ds))"
proof (induction ds)
  case Nil
  show ?case by simp
next
  case (Cons d ds)
  show ?case
    using Cons.IH by (simp add: height_region del: height.simps)
qed

lemma median_value:
  "xs \<noteq> [] \<Longrightarrow>
   median xs =
     Inr (if length xs mod 2 = 1 then sort xs ! (length xs div 2)
          else (sort xs ! (length xs div 2 - 1) + sort xs ! (length xs div 2)) / 2)"
proof -
  assume "xs \<noteq> []"
  then have "sort xs \<noteq> []" by (metis length_0_conv length_sort)
  then show ?thesis by (simp add: median_def Let_def)
qed

lemma median_nonempty: "xs \<noteq> [] \<Longrightarrow> \<exists>m. median xs = Inr m"
  using median_value by blast

lemma median_mset: "mset xs = mset ys \<Longrightarrow> median xs = median ys"
proof -
  assume "mset xs = mset ys"
  then have "sort xs = sort ys"
    by (metis mset_sort properties_for_sort sorted_sort)
  then show ?thesis by (simp add: median_def)
qed

lemma line_spacing_char:
  "line_spacing ds =
     (if \<exists>d \<in> set ds. fst d = [] then Inl empty_max_error
      else if ds = [] then Inr 8
      else (case median (map (\<lambda>d. region_height (fst d)) ds) of
              Inl e \<Rightarrow> Inl e
            | Inr th \<Rightarrow> Inr (max (th * (6 / 10)) 8)))"
  by (simp add: line_spacing_def typical_height_def heights_char)

lemma line_spacing_ok:
  assumes "\<forall>d \<in> set ds. fst d \<noteq> []"
  shows "\<exists>thr. line_spacing ds = Inr thr \<and> 8 \<le> thr"
proof (cases "ds = []")
  case True
  then show ?thesis by (simp add: line_spacing_char)
next
  case False
  then obtain m where "median (map (\<lambda>d. region_height (fst d)) ds) = Inr m"
    using median_nonempty [of "map (\<lambda>d. region_height (fst d)) ds"] by auto
  with False assms show ?thesis by (auto simp: line_spacing_char)
qed

lemma line_spacing_ge: "line_spacing ds = Inr thr \<Longrightarrow> 8 \<le> thr"
  by (auto simp: line_spacing_char split: if_splits sum.splits)

lemma line_spacing_mset:
  assumes "mset ds' = mset ds"
  shows "line_spacing ds' = line_spacing ds"
proof -
  have s: "set ds' = set ds" using assms by (rule mset_eq_setD)
  have e: "(ds' = []) = (ds = [])" using assms by (metis mset_zero_iff)
  have "mset (map (\<lambda>d. region_height (fst d)) ds') = mset (map (\<lambda>d. region_height (fst d)) ds)"
    using assms by (metis mset_map)
  then have "median (map (\<lambda>d. region_height (fst d)) ds') = median (map (\<lambda>d. region_height (fst d)) ds)"
    by (rule median_mset)
  with s e show ?thesis by (simp add: line_spacing_char)
qed

lemma map_filter_none:
  "\<forall>d \<in> set ds. \<not> survives d \<Longrightarrow> List.map_filter make_item ds = []"
  by (simp add: map_filter_def survives_def filter_empty_conv)

lemma format_results_nothing_survives:
  assumes "\<forall>d \<in> set ds. \<not> survives d" and "\<forall>d \<in> set ds. fst d \<noteq> []"
  shows "format_results ds = Inr []"
proof -
  obtain thr where "line_spacing ds = Inr thr" using line_spacing_ok [OF assms(2)] by blast
  moreover have "group_by_line ds thr = []"
    using map_filter_none [OF assms(1)] by (simp add: group_by_line_def sorted_items_def)
  ultimately show ?thesis by (simp add: format_results_def output_lines_def)
qed

section \<open>C2: the detections behind the threshold\<close>

text \<open>
  Claim C2 says that the line-spacing threshold is \<open>max(0.6 * H, 8.0)\<close> with \<open>H\<close> the
  median height over exactly the detections that survive the filter. The source takes
  the heights of all raw detections before \<open>_group_by_line\<close> filters any: with two lines
  twenty units apart and three blank detections of height 100, the threshold is 60 and
  the two lines merge, where the filtered median gives 8 and two lines.
\<close>

theorem line_spacing_filtered_counterexample:
  "line_spacing threshold_probe = Inr 60 \<and>
   line_spacing (filter survives threshold_probe) = Inr 8 \<and>
   format_results threshold_probe = Inr ''a b'' \<and>
   format_results (filter survives threshold_probe) = Inr (''a'' @ [CHR 0x0A] @ ''b'')"
proof -
  have a: "line_spacing threshold_probe = Inr 60" by code_simp
  have b: "line_spacing (filter survives threshold_probe) = Inr 8" by code_simp
  have c: "format_results threshold_probe = Inr ''a b''" by code_simp
  have d: "format_results (filter survives threshold_probe) = Inr (''a'' @ [CHR 0x0A] @ ''b'')"
    by code_simp
  from a b c d show ?thesis by blast
qed

text \<open>
  Claim C2, amended. For every non-empty detection list whose regions are non-empty,
  the threshold used for grouping is \<open>max(0.6 * H, 8.0)\<close> where \<open>H\<close> is the median of the
  heights (largest minus smallest y-coordinate of the region) of all detections passed
  in, those that the filter later drops included.
\<close>

theorem line_spacing_over_all_detections:
  assumes "results \<noteq> []" and "\<forall>d \<in> set results. fst d \<noteq> []"
  shows "\<exists>H. median (map (\<lambda>d. region_height (fst d)) results) = Inr H \<and>
             line_spacing results = Inr (max (H * (6 / 10)) 8) \<and>
             format_results results =
               Inr (join [CHR 0x0A] (output_lines results (max (H * (6 / 10)) 8)))"
proof -
  obtain H where H: "median (map (\<lambda>d. region_height (fst d)) results) = Inr H"
    using median_nonempty [of "map (\<lambda>d. region_height (fst d)) results"] assms(1) by auto
  have ls: "line_spacing results = Inr (max (H * (6 / 10)) 8)"
    using assms H by (simp add: line_spacing_char)
  have "format_results results = Inr (join [CHR 0x0A] (output_lines results (max (H * (6 / 10)) 8)))"
    using assms(1) ls by (simp add: format_results_def)
  with H ls show ?thesis by blast
qed

theorem line_spacing_over_all_detections_witness:
  "median (map (\<lambda>d. region_height (fst d)) threshold_probe) = Inr 100 \<and>
   line_spacing threshold_probe = Inr (max (100 * (6 / 10)) 8) \<and>
   format_results threshold_probe = Inr ''a b''"
proof -
  have a: "threshold_probe \<noteq> []" by (simp add: threshold_probe_def)
  have b: "\<forall>d \<in> set threshold_probe. fst d \<noteq> []"
    by (simp add: threshold_probe_def square_def)
  have m: "median (map (\<lambda>d. region_height (fst d)) threshold_probe) = Inr 100" by code_simp
  have f: "format_results threshold_probe = Inr ''a b''" by code_simp
  from line_spacing_over_all_detections [OF a b] m f show ?thesis by auto
qed

section \<open>Lines of single detections and lines of chained detections\<close>

lemma map_filter_all_survive:
  "\<forall>d \<in> set ds. survives d \<Longrightarrow> List.map_filter make_item ds = map (the \<circ> make_item) ds"
  by (simp add: map_filter_def survives_def)

lemma the_make_item:
  "survives d \<Longrightarrow> item_v (the (make_item d)) = v_anchor d \<and> item_text (the (make_item d)) = det_text d"
proof -
  assume "survives d"
  then obtain it where it: "make_item d = Some it" by (auto simp: survives_def)
  from make_item_anchors [OF it] it show ?thesis by (simp add: det_text_def)
qed

lemma chain_apart_pairwise:
  "distinct (map item_v xs) \<Longrightarrow>
   (\<forall>a \<in> set xs. \<forall>b \<in> set xs. item_v a \<noteq> item_v b \<longrightarrow> thr < \<bar>item_v b - item_v a\<bar>) \<Longrightarrow>
   chain_apart thr xs"
  by (induction thr xs rule: chain_apart.induct) auto

lemma spec_group_all_apart:
  "chain_apart thr items \<Longrightarrow> spec_group thr items = map (\<lambda>x. [x]) items"
  by (cases items) (simp_all add: spec_group_def spec_greedy_all_apart)

lemma line_text_single: "line_text [it] = strip (item_text it)"
  by (simp add: line_text_def)

lemma pairwise_by_index:
  assumes "\<forall>i < length ds. \<forall>j < length ds. i \<noteq> j \<longrightarrow> thr < \<bar>f (ds ! i) - f (ds ! j)\<bar>"
    and "(0::rat) \<le> thr"
  shows "distinct (map f ds) \<and> (\<forall>a \<in> set ds. \<forall>b \<in> set ds. f a \<noteq> f b \<longrightarrow> thr < \<bar>f b - f a\<bar>)"
proof
  show "distinct (map f ds)"
  proof (subst distinct_conv_nth, intro allI impI)
    fix i j assume "i < length (map f ds)" "j < length (map f ds)" "i \<noteq> j"
    then have "thr < \<bar>f (ds ! i) - f (ds ! j)\<bar>" and "i < length ds" "j < length ds"
      using assms(1) by auto
    with assms(2) show "map f ds ! i \<noteq> map f ds ! j" by auto
  qed
  show "\<forall>a \<in> set ds. \<forall>b \<in> set ds. f a \<noteq> f b \<longrightarrow> thr < \<bar>f b - f a\<bar>"
  proof (intro ballI impI)
    fix a b assume "a \<in> set ds" "b \<in> set ds" "f a \<noteq> f b"
    then obtain i j where "i < length ds" "ds ! i = a" "j < length ds" "ds ! j = b"
      by (auto simp: in_set_conv_nth)
    moreover from this \<open>f a \<noteq> f b\<close> have "j \<noteq> i" by auto
    ultimately show "thr < \<bar>f b - f a\<bar>" using assms(1) by blast
  qed
qed

lemma mset_map_filter:
  "mset ds' = mset ds \<Longrightarrow> mset (List.map_filter f ds') = mset (List.map_filter f ds)"
  by (simp add: map_filter_def)

lemma sorted_items_mset:
  assumes "mset ds' = mset ds" and "distinct (map item_key (sorted_items ds))"
  shows "sorted_items ds' = sorted_items ds"
proof -
  let ?xs' = "List.map_filter make_item ds'"
  have m: "mset ?xs' = mset (sorted_items ds)"
    using mset_map_filter [OF assms(1), of make_item] by (simp add: sorted_items_def)
  then have "set ?xs' = set (sorted_items ds)" by (rule mset_eq_setD)
  moreover have "inj_on item_key (set (sorted_items ds))"
    using assms(2) by (simp add: distinct_map)
  ultimately have i: "inj_on item_key (set ?xs')" by simp
  have s: "sorted (map item_key (sorted_items ds))" by (simp add: sorted_items_def)
  from sort_key_inj_key_eq [OF m i s] show ?thesis by (simp add: sorted_items_def)
qed

lemma format_results_mset:
  assumes "mset ds' = mset ds" and "distinct (map item_key (sorted_items ds))"
  shows "format_results ds' = format_results ds"
proof -
  have e: "(ds' = []) = (ds = [])" using assms(1) by (metis mset_zero_iff)
  have "group_by_line ds' thr = group_by_line ds thr" for thr
    by (simp add: group_by_line_def sorted_items_mset [OF assms])
  then show ?thesis
    by (simp add: format_results_def output_lines_def line_spacing_mset [OF assms(1)] e
             split: sum.splits)
qed

lemma spec_group_all_close:
  "items \<noteq> [] \<Longrightarrow> chain_close thr items \<Longrightarrow> spec_group thr items = [items]"
  by (cases items) (simp_all add: spec_group_def spec_greedy_all_close)

section \<open>C3: detections far apart give one line each\<close>

text \<open>
  Claim C3. For every list of \<open>N\<close> detections with non-empty trimmed texts in which
  any two detections have vertical anchors more than the line-spacing threshold apart,
  the Line Reconstructor produces exactly \<open>N\<close> output lines, one per detection: the
  result is the newline-join of \<open>N\<close> lines, which are the stripped texts of the
  detections in sorted order.
\<close>

theorem far_apart_one_line_each:
  assumes survive: "\<forall>d \<in> set ds. survives d"
    and regions: "\<forall>d \<in> set ds. fst d \<noteq> []"
    and spacing: "line_spacing ds = Inr thr"
    and apart: "\<forall>i < length ds. \<forall>j < length ds.
                  i \<noteq> j \<longrightarrow> thr < \<bar>v_anchor (ds ! i) - v_anchor (ds ! j)\<bar>"
  shows "format_results ds = Inr (join [CHR 0x0A] (output_lines ds thr)) \<and>
         length (output_lines ds thr) = length ds \<and>
         output_lines ds thr = map (\<lambda>it. strip (item_text it)) (sorted_items ds) \<and>
         mset (output_lines ds thr) = mset (map (\<lambda>d. strip (det_text d)) ds)"
proof -
  let ?items = "sorted_items ds"
  have thr: "0 \<le> thr" using line_spacing_ge [OF spacing] by simp
  have ms: "mset ?items = mset (map (the \<circ> make_item) ds)"
    by (simp add: sorted_items_def map_filter_all_survive [OF survive])
  have vs: "map item_v (map (the \<circ> make_item) ds) = map v_anchor ds"
    using survive by (simp add: the_make_item)
  have ts: "map (\<lambda>it. strip (item_text it)) (map (the \<circ> make_item) ds) = map (\<lambda>d. strip (det_text d)) ds"
    using survive by (simp add: the_make_item)
  from pairwise_by_index [OF apart thr]
  have d: "distinct (map v_anchor ds)"
    and p: "\<forall>a \<in> set ds. \<forall>b \<in> set ds. v_anchor a \<noteq> v_anchor b \<longrightarrow> thr < \<bar>v_anchor b - v_anchor a\<bar>"
    by blast+
  have "mset (map item_v ?items) = mset (map v_anchor ds)"
    using ms vs by (metis mset_map)
  then have d': "distinct (map item_v ?items)"
    using d by (metis mset_eq_imp_distinct_iff)
  have p': "\<forall>a \<in> set ?items. \<forall>b \<in> set ?items. item_v a \<noteq> item_v b \<longrightarrow> thr < \<bar>item_v b - item_v a\<bar>"
  proof (intro ballI impI)
    fix a b assume ab: "a \<in> set ?items" "b \<in> set ?items" "item_v a \<noteq> item_v b"
    from sorted_items_origin [OF ab(1)] obtain da where da: "da \<in> set ds" "item_v a = v_anchor da"
      by blast
    from sorted_items_origin [OF ab(2)] obtain db where db: "db \<in> set ds" "item_v b = v_anchor db"
      by blast
    from p da db ab(3) show "thr < \<bar>item_v b - item_v a\<bar>" by simp
  qed
  have groups: "group_by_line ds thr = map (\<lambda>x. [x]) ?items"
    using chain_apart_pairwise [OF d' p'] by (simp add: group_by_line_spec spec_group_all_apart)
  have out: "output_lines ds thr = map (\<lambda>it. strip (item_text it)) ?items"
    by (simp add: output_lines_def groups line_text_single comp_def)
  have len: "length (output_lines ds thr) = length ds"
    using ms out by (metis length_map size_mset)
  have "mset (output_lines ds thr) = image_mset (\<lambda>it. strip (item_text it)) (mset ?items)"
    by (simp add: out)
  also have "\<dots> = mset (map (\<lambda>it. strip (item_text it)) (map (the \<circ> make_item) ds))"
    by (simp only: ms mset_map)
  finally have mo: "mset (output_lines ds thr) = mset (map (\<lambda>d. strip (det_text d)) ds)"
    by (simp only: ts)
  have fr: "format_results ds = Inr (join [CHR 0x0A] (output_lines ds thr))"
    using spacing by (simp add: format_results_def output_lines_def group_by_line_def sorted_items_def map_filter_simps)
  from fr len out mo show ?thesis by blast
qed

theorem far_apart_one_line_each_witness:
  "line_spacing three_lines_page = Inr 8 \<and>
   length (output_lines three_lines_page 8) = 3 \<and>
   format_results three_lines_page = Inr (''a'' @ [CHR 0x0A] @ ''b'' @ [CHR 0x0A] @ ''c'')"
proof -
  have a: "\<forall>d \<in> set three_lines_page. survives d" by code_simp
  have b: "\<forall>d \<in> set three_lines_page. fst d \<noteq> []"
    by (simp add: three_lines_page_def square_def)
  have c: "line_spacing three_lines_page = Inr 8" by code_simp
  have v: "map v_anchor three_lines_page = [45, 5, 25]" by code_simp
  have l: "length three_lines_page = 3" by (simp add: three_lines_page_def)
  have d: "\<forall>i < length three_lines_page. \<forall>j < length three_lines_page.
             i \<noteq> j \<longrightarrow> 8 < \<bar>v_anchor (three_lines_page ! i) - v_anchor (three_lines_page ! j)\<bar>"
  proof (intro allI impI)
    fix i j assume ij: "i < length three_lines_page" "j < length three_lines_page" "i \<noteq> j"
    have "v_anchor (three_lines_page ! i) = [45, 5, 25] ! i"
      using ij(1) v by (metis length_map nth_map)
    moreover have "v_anchor (three_lines_page ! j) = [45, 5, 25] ! j"
      using ij(2) v by (metis length_map nth_map)
    moreover have "i \<in> {0, 1, 2}" "j \<in> {0, 1, 2}" using ij l by auto
    ultimately show "8 < \<bar>v_anchor (three_lines_page ! i) - v_anchor (three_lines_page ! j)\<bar>"
      using ij(3) by auto
  qed
  have j: "join [CHR 0x0A] (output_lines three_lines_page 8) = ''a'' @ [CHR 0x0A] @ ''b'' @ [CHR 0x0A] @ ''c''"
    by code_simp
  from far_apart_one_line_each [OF a b c d] c l j show ?thesis by metis
qed

section \<open>C4: chained detections give one line\<close>

text \<open>
  Claim C4 says that when every detection is within the threshold of its predecessor
  in the sorted order, the output is one line ordered by horizontal anchor, and that
  this output does not change under any permutation of the input. Both sorts are
  stable, so two detections with the same pair of anchors keep their input order:
  swapping them swaps their texts in the line.
\<close>

theorem tie_order_counterexample:
  "chain_close 8 (sorted_items tie_page) \<and>
   line_spacing tie_page = Inr 8 \<and>
   mset (rev tie_page) = mset tie_page \<and>
   format_results tie_page = Inr ''a b'' \<and>
   format_results (rev tie_page) = Inr ''b a''"
proof -
  have a: "chain_close 8 (sorted_items tie_page)" by code_simp
  have b: "line_spacing tie_page = Inr 8" by code_simp
  have c: "mset (rev tie_page) = mset tie_page" by simp
  have d: "format_results tie_page = Inr ''a b''" by code_simp
  have e: "format_results (rev tie_page) = Inr ''b a''" by code_simp
  from a b c d e show ?thesis by blast
qed

text \<open>
  Claim C4, amended. When every surviving detection is within the threshold of its
  predecessor in the sorted order, the Line Reconstructor produces exactly one output
  line holding all surviving detections in ascending horizontal-anchor order, and this
  output is the same for every permutation of the input provided no two surviving
  detections have the same pair (vertical anchor, horizontal anchor).
\<close>

theorem chained_detections_one_line:
  assumes spacing: "line_spacing ds = Inr thr"
    and close: "chain_close thr (sorted_items ds)"
    and some: "sorted_items ds \<noteq> []"
  shows "output_lines ds thr =
           [join '' '' (map (\<lambda>it. strip (item_text it)) (sort_key item_h (sorted_items ds)))] \<and>
         sorted (map item_h (sort_key item_h (sorted_items ds))) \<and>
         mset (sort_key item_h (sorted_items ds)) = mset (List.map_filter make_item ds) \<and>
         format_results ds =
           Inr (join '' '' (map (\<lambda>it. strip (item_text it)) (sort_key item_h (sorted_items ds)))) \<and>
         (\<forall>ds'. mset ds' = mset ds \<and> distinct (map item_key (sorted_items ds)) \<longrightarrow>
                format_results ds' = format_results ds)"
proof -
  have g: "group_by_line ds thr = [sorted_items ds]"
    by (simp add: group_by_line_spec spec_group_all_close [OF some close])
  have out: "output_lines ds thr =
           [join '' '' (map (\<lambda>it. strip (item_text it)) (sort_key item_h (sorted_items ds)))]"
    by (simp add: output_lines_def g line_text_def)
  have srt: "sorted (map item_h (sort_key item_h (sorted_items ds)))" by simp
  have ms: "mset (sort_key item_h (sorted_items ds)) = mset (List.map_filter make_item ds)"
    by (simp add: sorted_items_def)
  have ne: "ds \<noteq> []" using some by (auto simp: sorted_items_def map_filter_simps)
  have fr: "format_results ds =
           Inr (join '' '' (map (\<lambda>it. strip (item_text it)) (sort_key item_h (sorted_items ds))))"
    using ne spacing by (simp add: format_results_def out)
  have perm: "\<forall>ds'. mset ds' = mset ds \<and> distinct (map item_key (sorted_items ds)) \<longrightarrow>
                format_results ds' = format_results ds"
    using format_results_mset by blast
  from out srt ms fr perm show ?thesis by blast
qed

theorem chained_detections_one_line_witness:
  "line_spacing one_line_page = Inr 8 \<and>
   chain_close 8 (sorted_items one_line_page) \<and>
   output_lines one_line_page 8 = [''Hello World''] \<and>
   format_results one_line_page = Inr ''Hello World'' \<and>
   format_results (rev one_line_page) = format_results one_line_page"
proof -
  have a: "line_spacing one_line_page = Inr 8" by code_simp
  have b: "chain_close 8 (sorted_items one_line_page)" by code_simp
  have c: "sorted_items one_line_page \<noteq> []" by code_simp
  have d: "distinct (map item_key (sorted_items one_line_page))" by code_simp
  have e: "mset (rev one_line_page) = mset one_line_page" by simp
  have f: "join '' '' (map (\<lambda>it. strip (item_text it)) (sort_key item_h (sorted_items one_line_page)))
             = ''Hello World''" by code_simp
  from chained_detections_one_line [OF a b c] d e f a b show ?thesis by auto
qed

section \<open>Detections that the filter drops\<close>

lemma not_str_not_survives: "\<not> is_str d \<Longrightarrow> \<not> survives d"
  by (cases d rule: make_item.cases) (simp_all add: is_str_def survives_def)

lemma blank_not_survives: "is_str d \<Longrightarrow> strip (det_text d) = [] \<Longrightarrow> \<not> survives d"
  by (cases d rule: make_item.cases) (simp_all add: is_str_def det_text_def survives_def)

lemma sorted_items_drop:
  "\<not> survives d \<Longrightarrow> sorted_items (pre @ d # post) = sorted_items (pre @ post)"
  by (simp add: sorted_items_def map_filter_def survives_def)

lemma group_by_line_drop:
  "\<not> survives d \<Longrightarrow> group_by_line (pre @ d # post) thr = group_by_line (pre @ post) thr"
  by (simp add: group_by_line_def sorted_items_drop)

lemma format_results_returns:
  assumes "\<forall>d \<in> set ds. fst d \<noteq> []"
  shows "\<exists>s. format_results ds = Inr s"
proof -
  obtain thr where "line_spacing ds = Inr thr" using line_spacing_ok [OF assms] by blast
  then show ?thesis by (simp add: format_results_def)
qed

section \<open>C10: detections whose text is not a string\<close>

lemma line_spacing_same_regions:
  assumes "map fst ds' = map fst ds"
  shows "line_spacing ds' = line_spacing ds"
proof -
  have e: "(\<exists>d \<in> set ds'. fst d = []) = (\<exists>d \<in> set ds. fst d = [])"
  proof -
    have "(\<exists>d \<in> set ds'. fst d = []) = ([] \<in> set (map fst ds'))" by force
    also have "\<dots> = ([] \<in> set (map fst ds))" by (simp only: assms)
    also have "\<dots> = (\<exists>d \<in> set ds. fst d = [])" by force
    finally show ?thesis .
  qed
  have n: "(ds' = []) = (ds = [])" using assms by (metis map_is_Nil_conv)
  have "map region_height (map fst ds') = map region_height (map fst ds)" by (simp only: assms)
  then have h: "map (\<lambda>d. region_height (fst d)) ds' = map (\<lambda>d. region_height (fst d)) ds"
    by (simp add: comp_def)
  show ?thesis by (simp only: line_spacing_char e n h)
qed

lemma format_results_same_regions_dropped:
  assumes "\<not> survives d" and "\<not> survives d'" and "fst d' = fst d"
  shows "format_results (pre @ d' # post) = format_results (pre @ d # post)"
proof -
  have "map fst (pre @ d' # post) = map fst (pre @ d # post)" using assms(3) by simp
  then have l: "line_spacing (pre @ d' # post) = line_spacing (pre @ d # post)"
    by (rule line_spacing_same_regions)
  have "group_by_line (pre @ d' # post) thr = group_by_line (pre @ d # post) thr" for thr
    using assms(1,2) by (simp add: group_by_line_drop)
  then show ?thesis by (simp add: format_results_def output_lines_def l split: sum.splits)
qed

text \<open>
  Claim C10. A detection whose text is not a string is discarded exactly as a
  whitespace-only detection is, whatever its region: it yields no item,
  \<open>_group_by_line\<close> returns the groups of the input without it, and giving it a
  whitespace-only text instead leaves the result of \<open>_format_results\<close> unchanged. With
  the regions of the data model, which have at least one point (the engine returns
  four corners), the Line Reconstructor returns a string on such input and never
  raises, and an input consisting only of such detections yields the empty string.
\<close>

theorem non_string_text_discarded:
  assumes "\<not> is_str d"
  shows "make_item d = None \<and>
         group_by_line (pre @ d # post) thr = group_by_line (pre @ post) thr \<and>
         (\<forall>w. is_str w \<and> strip (det_text w) = [] \<longrightarrow>
              group_by_line (pre @ w # post) thr = group_by_line (pre @ post) thr) \<and>
         (\<forall>ws c. strip ws = [] \<longrightarrow>
              format_results (pre @ (fst d, PyStr ws, c) # post)
                = format_results (pre @ d # post)) \<and>
         (fst d \<noteq> [] \<and> (\<forall>x \<in> set (pre @ post). fst x \<noteq> []) \<longrightarrow>
            (\<exists>s. format_results (pre @ d # post) = Inr s)) \<and>
         (fst d \<noteq> [] \<and> (\<forall>x \<in> set (pre @ post). \<not> is_str x \<and> fst x \<noteq> []) \<longrightarrow>
            format_results (pre @ d # post) = Inr [])"
proof -
  have ns: "\<not> survives d" using assms by (rule not_str_not_survives)
  have a: "make_item d = None" using ns unfolding survives_def by blast
  have b: "group_by_line (pre @ d # post) thr = group_by_line (pre @ post) thr"
    using ns by (rule group_by_line_drop)
  have c: "\<forall>w. is_str w \<and> strip (det_text w) = [] \<longrightarrow>
              group_by_line (pre @ w # post) thr = group_by_line (pre @ post) thr"
    using blank_not_survives group_by_line_drop by blast
  have w: "\<forall>ws c. strip ws = [] \<longrightarrow>
              format_results (pre @ (fst d, PyStr ws, c) # post)
                = format_results (pre @ d # post)"
  proof (intro allI impI)
    fix ws :: string and c :: rat
    assume "strip ws = []"
    then have "\<not> survives (fst d, PyStr ws, c)" by (simp add: survives_def)
    from format_results_same_regions_dropped [OF ns this]
    show "format_results (pre @ (fst d, PyStr ws, c) # post) = format_results (pre @ d # post)"
      by simp
  qed
  have d: "fst d \<noteq> [] \<and> (\<forall>x \<in> set (pre @ post). fst x \<noteq> []) \<longrightarrow>
            (\<exists>s. format_results (pre @ d # post) = Inr s)"
  proof
    assume "fst d \<noteq> [] \<and> (\<forall>x \<in> set (pre @ post). fst x \<noteq> [])"
    then have "\<forall>x \<in> set (pre @ d # post). fst x \<noteq> []" by auto
    then show "\<exists>s. format_results (pre @ d # post) = Inr s" by (rule format_results_returns)
  qed
  have e: "fst d \<noteq> [] \<and> (\<forall>x \<in> set (pre @ post). \<not> is_str x \<and> fst x \<noteq> []) \<longrightarrow>
            format_results (pre @ d # post) = Inr []"
  proof
    assume h: "fst d \<noteq> [] \<and> (\<forall>x \<in> set (pre @ post). \<not> is_str x \<and> fst x \<noteq> [])"
    then have r: "\<forall>x \<in> set (pre @ d # post). fst x \<noteq> []" by auto
    from h assms have "\<forall>x \<in> set (pre @ d # post). \<not> is_str x" by auto
    then have "\<forall>x \<in> set (pre @ d # post). \<not> survives x" using not_str_not_survives by blast
    then show "format_results (pre @ d # post) = Inr []"
      using r by (rule format_results_nothing_survives)
  qed
  from a b c w d e show ?thesis by blast
qed

theorem non_string_text_discarded_witness:
  "make_item number_detection = None \<and>
   group_by_line (example_page @ number_detection # []) 8 = group_by_line (example_page @ []) 8 \<and>
   format_results (example_page @ (fst number_detection, PyStr ''  '', 1) # [])
     = format_results (example_page @ number_detection # []) \<and>
   format_results (example_page @ number_detection # [])
     = Inr (''Hello World'' @ [CHR 0x0A] @ ''Second'') \<and>
   format_results ([] @ number_detection # []) = Inr []"
proof -
  have a: "\<not> is_str number_detection" by (simp add: number_detection_def is_str_def)
  have r: "fst number_detection \<noteq> []" by (simp add: number_detection_def square_def)
  have b: "strip ''  '' = []" by (simp add: strip_def is_space_def)
  have f: "format_results (example_page @ number_detection # [])
     = Inr (''Hello World'' @ [CHR 0x0A] @ ''Second'')" by code_simp
  from non_string_text_discarded [OF a, of example_page "[]" 8] b
  have 1: "make_item number_detection = None"
    and 2: "group_by_line (example_page @ number_detection # []) 8 = group_by_line (example_page @ []) 8"
    and 3: "format_results (example_page @ (fst number_detection, PyStr ''  '', 1) # [])
              = format_results (example_page @ number_detection # [])"
    by blast+
  from non_string_text_discarded [OF a, of "[]" "[]" 8] r
  have 4: "format_results ([] @ number_detection # []) = Inr []" by simp
  from 1 2 3 4 f show ?thesis by blast
qed

section \<open>The Engine Session\<close>

lemma ensure_reader_Some: "ensure_reader env languages (Some r) = (Inr r, Some r)"
  by (simp add: ensure_reader_def)

lemma ensure_reader_None:
  "ensure_reader env languages None =
     (case reader_init env (requested_reader env languages) of
        Some e \<Rightarrow> (Inl e, None)
      | None \<Rightarrow> (Inr (requested_reader env languages), Some (requested_reader env languages)))"
  by (simp add: ensure_reader_def requested_reader_def bound_languages_def DEFAULT_LANGUAGES_def Let_def
           split: option.splits)

lemma ensure_reader_result:
  "ensure_reader env languages st = (Inr rd, st') \<Longrightarrow> st' = Some rd"
  by (cases st) (auto simp: ensure_reader_Some ensure_reader_None split: option.splits)

lemma acquire_all_Some: "acquire_all env reqs (Some r) = (map (\<lambda>_. Inr r) reqs, Some r)"
  by (induction reqs) (simp_all add: ensure_reader_Some)

section \<open>C8: one reader for the life of the process\<close>

text \<open>
  Claim C8. When the engine constructs the reader without raising, the first acquire
  returns a handle bound to the requested languages, or to \<open>en\<close> when none are given,
  and stores it; every later acquire, for any languages and in any sequence, returns
  that same handle and leaves the stored handle, and so its languages, unchanged.
\<close>

theorem engine_session_singleton:
  fixes env :: "('img, 'page) env"
  assumes "reader_init env (requested_reader env languages) = None"
  shows "\<exists>r. ensure_reader env languages None = (Inr r, Some r) \<and>
             lang_list r = (case languages of None \<Rightarrow> [''en'']
                            | Some ls \<Rightarrow> if ls = [] then [''en''] else ls) \<and>
             (\<forall>(env' :: ('img, 'page) env) languages'.
                ensure_reader env' languages' (Some r) = (Inr r, Some r)) \<and>
             (\<forall>(env' :: ('img, 'page) env) reqs.
                acquire_all env' reqs (Some r) = (map (\<lambda>_. Inr r) reqs, Some r))"
proof -
  let ?r = "requested_reader env languages"
  have a: "ensure_reader env languages None = (Inr ?r, Some ?r)"
    using assms by (simp add: ensure_reader_None)
  have b: "lang_list ?r = (case languages of None \<Rightarrow> [''en'']
                            | Some ls \<Rightarrow> if ls = [] then [''en''] else ls)"
    by (simp add: requested_reader_def bound_languages_def)
  have c: "\<forall>(env' :: ('img, 'page) env) languages'.
             ensure_reader env' languages' (Some ?r) = (Inr ?r, Some ?r)"
    by (simp add: ensure_reader_Some)
  have d: "\<forall>(env' :: ('img, 'page) env) reqs.
             acquire_all env' reqs (Some ?r) = (map (\<lambda>_. Inr ?r) reqs, Some ?r)"
    by (simp add: acquire_all_Some)
  from a b c d show ?thesis by blast
qed

theorem engine_session_singleton_witness:
  "fst (ensure_reader demo_env (Some [''fr'', ''de'']) None) = Inr (requested_reader demo_env (Some [''fr'', ''de''])) \<and>
   lang_list (requested_reader demo_env (Some [''fr'', ''de''])) = [''fr'', ''de''] \<and>
   lang_list (requested_reader demo_env None) = [''en''] \<and>
   acquire_all demo_env [Some [''ja''], None, Some [''es'']]
       (snd (ensure_reader demo_env (Some [''fr'', ''de'']) None))
     = ([Inr (requested_reader demo_env (Some [''fr'', ''de''])),
         Inr (requested_reader demo_env (Some [''fr'', ''de''])),
         Inr (requested_reader demo_env (Some [''fr'', ''de'']))],
        Some (requested_reader demo_env (Some [''fr'', ''de''])))"
proof -
  have h: "reader_init demo_env (requested_reader demo_env (Some [''fr'', ''de''])) = None"
    by (simp add: demo_env_def)
  from engine_session_singleton [OF h] obtain r where
    r: "ensure_reader demo_env (Some [''fr'', ''de'']) None = (Inr r, Some r)"
       "\<forall>(env' :: (detection list, detection list) env) reqs.
          acquire_all env' reqs (Some r) = (map (\<lambda>_. Inr r) reqs, Some r)"
    by blast
  have e: "ensure_reader demo_env (Some [''fr'', ''de'']) None
           = (Inr (requested_reader demo_env (Some [''fr'', ''de''])),
              Some (requested_reader demo_env (Some [''fr'', ''de''])))"
    using h by (simp add: ensure_reader_None)
  with r(1) have eq: "r = requested_reader demo_env (Some [''fr'', ''de''])" by simp
  have l1: "lang_list (requested_reader demo_env (Some [''fr'', ''de''])) = [''fr'', ''de'']"
    by (simp add: requested_reader_def bound_languages_def)
  have l2: "lang_list (requested_reader demo_env None) = [''en'']"
    by (simp add: requested_reader_def bound_languages_def)
  have m: "map (\<lambda>_. Inr r) [Some [''ja''], None, Some [''es'']] = [Inr r, Inr r, Inr r]"
    by simp
  from r(2) have "acquire_all demo_env [Some [''ja''], None, Some [''es'']] (Some r)
          = (map (\<lambda>_. Inr r) [Some [''ja''], None, Some [''es'']], Some r)"
    by blast
  then have "acquire_all demo_env [Some [''ja''], None, Some [''es'']] (Some r)
          = ([Inr r, Inr r, Inr r], Some r)"
    by (simp only: m)
  with e eq l1 l2 show ?thesis by simp
qed

section \<open>The Document Walker\<close>

lemma extract_text_from_image_ready:
  "ensure_reader env languages st = (Inr rd, st') \<Longrightarrow>
   extract_text_from_image env img languages st =
     ((case readtext env rd img of Inl e \<Rightarrow> Inl e | Inr results \<Rightarrow> format_results results), st')"
  by (simp add: extract_text_from_image_def split: sum.splits)

lemma pdf_page_step:
  assumes "ensure_reader env languages st = (Inr rd, st')" and "page_text env rd page = Inr t"
  shows "pdf_pages env (page # pages) languages texts st
           = pdf_pages env pages languages (texts @ [t]) st'"
proof -
  from assms(2) obtain img where img: "render_page env page = Inr img"
    by (auto simp: page_text_def split: sum.splits)
  with assms(2) have "(case readtext env rd img of Inl e \<Rightarrow> Inl e | Inr results \<Rightarrow> format_results results) = Inr t"
    by (simp add: page_text_def)
  then show ?thesis
    using img by (simp add: extract_text_from_image_ready [OF assms(1)])
qed

lemma pdf_pages_ready:
  "map (page_text env rd) pages = map Inr ts \<Longrightarrow>
   pdf_pages env pages languages texts (Some rd) = (Inr (texts @ ts), Some rd)"
proof (induction pages arbitrary: texts ts)
  case Nil
  then show ?case by simp
next
  case (Cons page pages)
  then obtain t ts' where ts: "ts = t # ts'" "page_text env rd page = Inr t"
      "map (page_text env rd) pages = map Inr ts'"
    by (cases ts) auto
  from pdf_page_step [OF ensure_reader_Some ts(2)] Cons.IH [OF ts(3)] ts(1)
  show ?case by simp
qed

lemma pdf_pages_first:
  assumes "ensure_reader env languages st = (Inr rd, st1)"
    and "map (page_text env rd) pages = map Inr ts"
  shows "pdf_pages env pages languages texts st
           = (Inr (texts @ ts), if pages = [] then st else st1)"
proof (cases pages)
  case Nil
  with assms(2) show ?thesis by simp
next
  case (Cons page rest)
  with assms(2) obtain t ts' where ts: "ts = t # ts'" "page_text env rd page = Inr t"
      "map (page_text env rd) rest = map Inr ts'"
    by (cases ts) auto
  have st1: "st1 = Some rd" using assms(1) by (rule ensure_reader_result)
  from pdf_page_step [OF assms(1) ts(2)] pdf_pages_ready [OF ts(3)] ts(1) Cons st1
  show ?thesis by simp
qed

lemma join_snoc:
  "xs \<noteq> [] \<Longrightarrow> join sep (xs @ [t]) = join sep xs @ sep @ t"
  by (induction sep xs rule: join.induct) auto

lemma document_text_snoc:
  "document_text (us @ [t]) =
     (if t = [] then document_text us
      else if filter (\<lambda>t. t \<noteq> []) us = [] then t
      else document_text us @ [CHR 0x0A, CHR 0x0A] @ t)"
  by (simp add: document_text_def join_snoc)

lemma join_nonempty: "xs \<noteq> [] \<Longrightarrow> [] \<notin> set xs \<Longrightarrow> join sep xs \<noteq> []"
  by (induction sep xs rule: join.induct) auto

section \<open>C6: the Document Text of a PDF\<close>

text \<open>
  Claim C6. For a PDF whose pages all render and read, the Document Text is the
  non-empty Page Texts, in page order, joined by a blank line: there is one Page Text
  per page, an empty one adds nothing, and a non-empty one adds exactly one separator
  when a non-empty text precedes it and none otherwise (pages reading \<open>A\<close> and then
  nothing give \<open>A\<close>).
\<close>

theorem document_text_joins_nonempty_pages:
  assumes "fitz_open env p = Inr pages"
    and "ensure_reader env languages st = (Inr rd, st1)"
    and "map (page_text env rd) pages = map Inr ts"
  shows "extract_text_from_pdf env p languages st
           = (Inr (join [CHR 0x0A, CHR 0x0A] (filter (\<lambda>t. t \<noteq> []) ts)),
              if pages = [] then st else st1) \<and>
         length ts = length pages \<and>
         (\<forall>us t. document_text (us @ [t]) =
                   (if t = [] then document_text us
                    else if document_text us = [] then t
                    else document_text us @ [CHR 0x0A, CHR 0x0A] @ t))"
proof -
  have a: "extract_text_from_pdf env p languages st
           = (Inr (join [CHR 0x0A, CHR 0x0A] (filter (\<lambda>t. t \<noteq> []) ts)),
              if pages = [] then st else st1)"
    using assms(1) pdf_pages_first [OF assms(2,3), of "[]"]
    by (simp add: extract_text_from_pdf_def)
  have b: "length ts = length pages"
    using assms(3) by (metis length_map)
  have c: "\<forall>us t. document_text (us @ [t]) =
                   (if t = [] then document_text us
                    else if document_text us = [] then t
                    else document_text us @ [CHR 0x0A, CHR 0x0A] @ t)"
  proof (intro allI)
    fix us :: "string list" and t :: string
    have "(document_text us = []) = (filter (\<lambda>t. t \<noteq> []) us = [])"
      using join_nonempty [of "filter (\<lambda>t. t \<noteq> []) us" "[CHR 0x0A, CHR 0x0A]"]
      by (auto simp: document_text_def)
    then show "document_text (us @ [t]) =
                   (if t = [] then document_text us
                    else if document_text us = [] then t
                    else document_text us @ [CHR 0x0A, CHR 0x0A] @ t)"
      by (simp only: document_text_snoc)
  qed
  from a b c show ?thesis by blast
qed

theorem document_text_joins_nonempty_pages_witness:
  "map (page_text demo_env (requested_reader demo_env None))
       [[(square 0 0 10, PyStr ''A'', 1)], []] = map Inr [''A'', []] \<and>
   fst (extract_text_from_pdf demo_env (Path ''scans'' ''two.pdf'') None None) = Inr ''A''"
proof -
  have a: "fitz_open demo_env (Path ''scans'' ''two.pdf'') = Inr [[(square 0 0 10, PyStr ''A'', 1)], []]"
    by (simp add: demo_env_def)
  have b: "ensure_reader demo_env None None
             = (Inr (requested_reader demo_env None), Some (requested_reader demo_env None))"
    by (simp add: ensure_reader_None demo_env_def)
  have c: "map (page_text demo_env (requested_reader demo_env None))
       [[(square 0 0 10, PyStr ''A'', 1)], []] = map Inr [''A'', []]"
    by code_simp
  have d: "join [CHR 0x0A, CHR 0x0A] (filter (\<lambda>t. t \<noteq> []) [''A'', []]) = ''A''" by simp
  from document_text_joins_nonempty_pages [OF a b c] c d show ?thesis by simp
qed

section \<open>The Batch Driver on a single file\<close>

lemma resolve_single: "resolve_file_paths (FilesPath p) = [p]"
  by simp

lemma run_single:
  "run_ocr_on_files env (FilesPath p) languages st =
     (case process_files env False (languages_arg_of languages) [p] [] st of
        (Inl exc, st') \<Rightarrow> (Inl exc, st')
      | (Inr outputs, st') \<Rightarrow> (Inr (join [CHR 0x0A, CHR 0x0A] outputs), st'))"
  by (simp add: run_ocr_on_files_def languages_arg_of_def Let_def)

lemma run_single_ok:
  assumes "path_exists env p = Inr True"
    and "extract_text_from_path env p (languages_arg_of languages) st = (Inr text, st')"
  shows "run_ocr_on_files env (FilesPath p) languages st = (Inr (text_or_placeholder text), st')"
  using assms by (simp add: run_single)

lemma run_single_error:
  assumes "path_exists env p = Inr True"
    and "extract_text_from_path env p (languages_arg_of languages) st = (Inl exc, st')"
  shows "run_ocr_on_files env (FilesPath p) languages st
           = (Inr (''[error] Failed to process '' @ name p @ '': '' @ str_exc exc), st')"
  using assms by (simp add: run_single)

lemma blank_format_results:
  assumes "\<forall>d \<in> set ds. is_str d \<and> strip (det_text d) = [] \<and> fst d \<noteq> []"
  shows "format_results ds = Inr []"
proof -
  have "\<forall>d \<in> set ds. \<not> survives d" using assms blank_not_survives by blast
  moreover have "\<forall>d \<in> set ds. fst d \<noteq> []" using assms by blast
  ultimately show ?thesis by (rule format_results_nothing_survives)
qed

section \<open>C5: no text gives the empty string, and the driver puts the placeholder\<close>

text \<open>
  Claim C5. When the detections of a page are none, or all have whitespace-only text,
  the Line Reconstructor returns the empty string, and so does the Document Walker for
  an image holding that page; the placeholder \<open>(No text detected)\<close> appears only in
  what the Batch Driver returns for the file.
\<close>

theorem no_text_is_empty_until_the_driver:
  fixes env :: "('img, 'page) env"
  assumes blank: "\<forall>d \<in> set ds. is_str d \<and> strip (det_text d) = [] \<and> fst d \<noteq> []"
    and reader: "ensure_reader env langs st = (Inr rd, st')"
    and read: "readtext env rd img = Inr ds"
  shows "format_results ds = Inr [] \<and>
         extract_text_from_image env img langs st = (Inr [], st') \<and>
         (lower (suffix p) \<in> SUPPORTED_IMAGE_EXTENSIONS \<and> image_open env p = Inr img \<longrightarrow>
            extract_text_from_path env p langs st = (Inr [], st') \<and>
            (path_exists env p = Inr True \<and> langs = languages_arg_of languages \<longrightarrow>
               run_ocr_on_files env (FilesPath p) languages st
                 = (Inr ''(No text detected)'', st')))"
proof -
  have a: "format_results ds = Inr []" using blank by (rule blank_format_results)
  have b: "extract_text_from_image env img langs st = (Inr [], st')"
    using read a by (simp add: extract_text_from_image_ready [OF reader])
  have c: "lower (suffix p) \<in> SUPPORTED_IMAGE_EXTENSIONS \<and> image_open env p = Inr img \<longrightarrow>
            extract_text_from_path env p langs st = (Inr [], st') \<and>
            (path_exists env p = Inr True \<and> langs = languages_arg_of languages \<longrightarrow>
               run_ocr_on_files env (FilesPath p) languages st
                 = (Inr ''(No text detected)'', st'))"
  proof (intro impI conjI)
    assume h: "lower (suffix p) \<in> SUPPORTED_IMAGE_EXTENSIONS \<and> image_open env p = Inr img"
    then have "lower (suffix p) \<noteq> ''.pdf''" by (auto simp: SUPPORTED_IMAGE_EXTENSIONS_def)
    with h b show w: "extract_text_from_path env p langs st = (Inr [], st')"
      by (simp add: extract_text_from_path_def)
    assume e: "path_exists env p = Inr True \<and> langs = languages_arg_of languages"
    then have ex: "path_exists env p = Inr True"
      and w': "extract_text_from_path env p (languages_arg_of languages) st = (Inr [], st')"
      using w by simp_all
    from run_single_ok [OF ex w']
    show "run_ocr_on_files env (FilesPath p) languages st = (Inr ''(No text detected)'', st')"
      by (simp add: text_or_placeholder_def)
  qed
  from a b c show ?thesis by blast
qed

theorem no_text_is_empty_until_the_driver_witness:
  "format_results [] = Inr [] \<and>
   format_results [(square 0 0 10, PyStr ''  '', 1)] = Inr [] \<and>
   fst (extract_text_from_path demo_env (Path ''scans'' ''blank.png'') None None) = Inr [] \<and>
   fst (run_ocr_on_files demo_env (FilesPath (Path ''scans'' ''blank.png'')) None None)
     = Inr ''(No text detected)''"
proof -
  let ?ds = "[(square 0 0 10, PyStr ''  '', 1)] :: detection list"
  let ?p = "Path ''scans'' ''blank.png''"
  let ?rd = "requested_reader demo_env None"
  have l: "None = languages_arg_of None" by (simp add: languages_arg_of_def normalize_languages_def)
  have blank: "\<forall>d \<in> set ?ds. is_str d \<and> strip (det_text d) = [] \<and> fst d \<noteq> []"
    by (simp add: is_str_def det_text_def strip_def is_space_def square_def)
  have reader: "ensure_reader demo_env None None = (Inr ?rd, Some ?rd)"
    by (simp add: ensure_reader_None demo_env_def)
  have read: "readtext demo_env ?rd ?ds = Inr ?ds" by (simp add: demo_env_def)
  have sfx: "lower (suffix ?p) \<in> SUPPORTED_IMAGE_EXTENSIONS" by code_simp
  have opn: "image_open demo_env ?p = Inr ?ds" by (simp add: demo_env_def)
  have ex: "path_exists demo_env ?p = Inr True" by (simp add: demo_env_def)
  have e: "format_results [] = Inr []" by (simp add: format_results_def)
  from no_text_is_empty_until_the_driver [OF blank reader read, of ?p None] sfx opn ex l e
  show ?thesis by simp
qed

section \<open>C7: unsupported file types\<close>

lemma supported_set:
  "SUPPORTED_IMAGE_EXTENSIONS = {''.png'', ''.jpg'', ''.jpeg'', ''.bmp'', ''.tiff'', ''.tif''}"
  by (simp add: SUPPORTED_IMAGE_EXTENSIONS_def)

lemma walker_unsupported:
  assumes "lower (suffix p) \<notin> {''.pdf'', ''.png'', ''.jpg'', ''.jpeg'', ''.bmp'', ''.tiff'', ''.tif''}"
  shows "extract_text_from_path env p languages st
           = (Inl (ValueError (''Unsupported file type: '' @ lower (suffix p))), st)"
  using assms by (simp add: extract_text_from_path_def supported_set Let_def)

text \<open>
  Claim C7 says that the walker raises an error if and only if the lowercased extension
  is neither \<open>.pdf\<close> nor a supported image extension. It also raises for a supported
  extension when opening, rendering or recognition fails: a \<open>.png\<close> that does not open
  propagates the error of \<open>Image.open\<close>.
\<close>

theorem supported_extension_failure_counterexample:
  "lower (suffix (Path ''scans'' ''corrupt.png'')) = ''.png'' \<and>
   extract_text_from_path demo_env (Path ''scans'' ''corrupt.png'') None None
     = (Inl (ExternalError ''cannot identify image file''), None)"
proof -
  have a: "lower (suffix (Path ''scans'' ''corrupt.png'')) = ''.png''" by code_simp
  have "image_open demo_env (Path ''scans'' ''corrupt.png'')
          = Inl (ExternalError ''cannot identify image file'')"
    by (simp add: demo_env_def)
  then have b: "extract_text_from_path demo_env (Path ''scans'' ''corrupt.png'') None None
     = (Inl (ExternalError ''cannot identify image file''), None)"
    using a by (simp add: extract_text_from_path_def supported_set)
  from a b show ?thesis by blast
qed

text \<open>
  Claim C7, amended. The walker raises \<open>ValueError\<close> with the message
  \<open>Unsupported file type: <extension>\<close> exactly when the lowercased extension is neither
  \<open>.pdf\<close> nor one of \<open>.png .jpg .jpeg .bmp .tiff .tif\<close>, without touching the reader,
  and the Batch Driver reports it as
  \<open>[error] Failed to process <name>: Unsupported file type: <extension>\<close>. For a
  supported extension the walker is the PDF or the image path: it returns a text
  whenever opening, rendering and recognition succeed, and otherwise propagates their
  error.
\<close>

theorem unsupported_extension_error:
  fixes env :: "('img, 'page) env"
  shows "(lower (suffix p) \<notin> {''.pdf'', ''.png'', ''.jpg'', ''.jpeg'', ''.bmp'', ''.tiff'', ''.tif''} \<longrightarrow>
            extract_text_from_path env p languages st
              = (Inl (ValueError (''Unsupported file type: '' @ lower (suffix p))), st) \<and>
            (path_exists env p = Inr True \<longrightarrow>
               run_ocr_on_files env (FilesPath p) requested st
                 = (Inr (''[error] Failed to process '' @ name p @ '': Unsupported file type: ''
                           @ lower (suffix p)), st))) \<and>
         (lower (suffix p) = ''.pdf'' \<longrightarrow>
            extract_text_from_path env p languages st = extract_text_from_pdf env p languages st) \<and>
         (lower (suffix p) \<in> {''.png'', ''.jpg'', ''.jpeg'', ''.bmp'', ''.tiff'', ''.tif''} \<longrightarrow>
            extract_text_from_path env p languages st
              = (case image_open env p of
                   Inl e \<Rightarrow> (Inl e, st)
                 | Inr img \<Rightarrow> extract_text_from_image env img languages st)) \<and>
         (lower (suffix p) \<in> {''.png'', ''.jpg'', ''.jpeg'', ''.bmp'', ''.tiff'', ''.tif''} \<and>
          image_open env p = Inr img \<and> ensure_reader env languages st = (Inr rd, st') \<and>
          readtext env rd img = Inr ds \<and> (\<forall>d \<in> set ds. fst d \<noteq> []) \<longrightarrow>
            (\<exists>text. extract_text_from_path env p languages st = (Inr text, st'))) \<and>
         (lower (suffix p) = ''.pdf'' \<and> fitz_open env p = Inr pages \<and>
          ensure_reader env languages st = (Inr rd, st') \<and>
          map (page_text env rd) pages = map Inr ts \<longrightarrow>
            (\<exists>text st''. extract_text_from_path env p languages st = (Inr text, st'')))"
proof -
  let ?bad = "lower (suffix p) \<notin> {''.pdf'', ''.png'', ''.jpg'', ''.jpeg'', ''.bmp'', ''.tiff'', ''.tif''}"
  have a: "?bad \<longrightarrow>
            extract_text_from_path env p languages st
              = (Inl (ValueError (''Unsupported file type: '' @ lower (suffix p))), st) \<and>
            (path_exists env p = Inr True \<longrightarrow>
               run_ocr_on_files env (FilesPath p) requested st
                 = (Inr (''[error] Failed to process '' @ name p @ '': Unsupported file type: ''
                           @ lower (suffix p)), st))"
  proof (intro impI conjI)
    assume bad: ?bad
    show "extract_text_from_path env p languages st
              = (Inl (ValueError (''Unsupported file type: '' @ lower (suffix p))), st)"
      using bad by (rule walker_unsupported)
    assume ex: "path_exists env p = Inr True"
    from run_single_error [OF ex walker_unsupported [OF bad]]
    show "run_ocr_on_files env (FilesPath p) requested st
                 = (Inr (''[error] Failed to process '' @ name p @ '': Unsupported file type: ''
                           @ lower (suffix p)), st)"
      by simp
  qed
  have b: "lower (suffix p) = ''.pdf'' \<longrightarrow>
            extract_text_from_path env p languages st = extract_text_from_pdf env p languages st"
    by (simp add: extract_text_from_path_def)
  have c: "lower (suffix p) \<in> {''.png'', ''.jpg'', ''.jpeg'', ''.bmp'', ''.tiff'', ''.tif''} \<longrightarrow>
            extract_text_from_path env p languages st
              = (case image_open env p of
                   Inl e \<Rightarrow> (Inl e, st)
                 | Inr img \<Rightarrow> extract_text_from_image env img languages st)"
    by (auto simp: extract_text_from_path_def supported_set)
  have d: "lower (suffix p) \<in> {''.png'', ''.jpg'', ''.jpeg'', ''.bmp'', ''.tiff'', ''.tif''} \<and>
          image_open env p = Inr img \<and> ensure_reader env languages st = (Inr rd, st') \<and>
          readtext env rd img = Inr ds \<and> (\<forall>d \<in> set ds. fst d \<noteq> []) \<longrightarrow>
            (\<exists>text. extract_text_from_path env p languages st = (Inr text, st'))"
  proof
    assume h: "lower (suffix p) \<in> {''.png'', ''.jpg'', ''.jpeg'', ''.bmp'', ''.tiff'', ''.tif''} \<and>
          image_open env p = Inr img \<and> ensure_reader env languages st = (Inr rd, st') \<and>
          readtext env rd img = Inr ds \<and> (\<forall>d \<in> set ds. fst d \<noteq> [])"
    then obtain out where t: "format_results ds = Inr out"
      using format_results_returns [of ds] by blast
    from h have r: "ensure_reader env languages st = (Inr rd, st')" by blast
    have "extract_text_from_image env img languages st = (Inr out, st')"
      using h t by (simp add: extract_text_from_image_ready [OF r])
    moreover have "extract_text_from_path env p languages st
              = (case image_open env p of
                   Inl e \<Rightarrow> (Inl e, st)
                 | Inr img \<Rightarrow> extract_text_from_image env img languages st)"
      using c h by blast
    ultimately show "\<exists>text. extract_text_from_path env p languages st = (Inr text, st')"
      using h by simp
  qed
  have e: "lower (suffix p) = ''.pdf'' \<and> fitz_open env p = Inr pages \<and>
          ensure_reader env languages st = (Inr rd, st') \<and>
          map (page_text env rd) pages = map Inr ts \<longrightarrow>
            (\<exists>text st''. extract_text_from_path env p languages st = (Inr text, st''))"
  proof
    assume h: "lower (suffix p) = ''.pdf'' \<and> fitz_open env p = Inr pages \<and>
          ensure_reader env languages st = (Inr rd, st') \<and>
          map (page_text env rd) pages = map Inr ts"
    then have f: "fitz_open env p = Inr pages" and r: "ensure_reader env languages st = (Inr rd, st')"
      and m: "map (page_text env rd) pages = map Inr ts" by blast+
    from pdf_pages_first [OF r m, of "[]"] f
    have "\<exists>text st''. extract_text_from_pdf env p languages st = (Inr text, st'')"
      by (simp add: extract_text_from_pdf_def)
    with b h show "\<exists>text st''. extract_text_from_path env p languages st = (Inr text, st'')"
      by simp
  qed
  from a b c d e show ?thesis by blast
qed

theorem unsupported_extension_error_witness:
  "lower (suffix (Path ''uploads'' ''x.docx'')) = ''.docx'' \<and>
   extract_text_from_path demo_env (Path ''uploads'' ''x.docx'') None None
     = (Inl (ValueError ''Unsupported file type: .docx''), None) \<and>
   run_ocr_on_files demo_env (FilesPath (Path ''uploads'' ''x.docx'')) None None
     = (Inr ''[error] Failed to process x.docx: Unsupported file type: .docx'', None) \<and>
   lower (suffix (Path ''uploads'' ''Scan.PDF'')) = ''.pdf'' \<and>
   extract_text_from_path demo_env (Path ''uploads'' ''Scan.PDF'') None None
     = extract_text_from_pdf demo_env (Path ''uploads'' ''Scan.PDF'') None None"
proof -
  let ?p = "Path ''uploads'' ''x.docx''"
  let ?q = "Path ''uploads'' ''Scan.PDF''"
  have s: "lower (suffix ?p) = ''.docx''" by code_simp
  have bad: "lower (suffix ?p) \<notin> {''.pdf'', ''.png'', ''.jpg'', ''.jpeg'', ''.bmp'', ''.tiff'', ''.tif''}"
    by (simp add: s)
  have ex: "path_exists demo_env ?p = Inr True" by (simp add: demo_env_def)
  have q: "lower (suffix ?q) = ''.pdf''" by code_simp
  from unsupported_extension_error [of ?p demo_env None None None] bad ex s
  have 1: "extract_text_from_path demo_env ?p None None
     = (Inl (ValueError ''Unsupported file type: .docx''), None)"
    and 2: "run_ocr_on_files demo_env (FilesPath ?p) None None
     = (Inr ''[error] Failed to process x.docx: Unsupported file type: .docx'', None)"
    by simp_all
  from unsupported_extension_error [of ?q demo_env None None] q
  have 3: "extract_text_from_path demo_env ?q None None
     = extract_text_from_pdf demo_env ?q None None"
    by blast
  from s 1 2 q 3 show ?thesis by blast
qed

section \<open>C9: the batch and the failures of its files\<close>

lemma join_blank_line: "join [CHR 0x0A, CHR 0x0A] xs = blank_line_joined xs"
  by (induction "[CHR 0x0A, CHR 0x0A]" xs rule: join.induct) simp_all

lemma process_files_entries:
  assumes "\<forall>p \<in> set ps. \<exists>found. path_exists env p = Inr found"
  shows "\<exists>new st'. process_files env multi la ps outs st = (Inr (outs @ new), st') \<and>
             list_all2 (file_entry env multi la) ps new"
  using assms
proof (induction ps arbitrary: outs st)
  case Nil
  show ?case by simp
next
  case (Cons p ps)
  from Cons.prems obtain found where f: "path_exists env p = Inr found" by auto
  from Cons.prems have rest: "\<forall>p \<in> set ps. \<exists>found. path_exists env p = Inr found" by simp
  show ?case
  proof (cases found)
    case False
    let ?e = "''[warning] File not found: '' @ name p"
    from Cons.IH [OF rest, of "outs @ [?e]" st] obtain new st' where
      n: "process_files env multi la ps (outs @ [?e]) st = (Inr ((outs @ [?e]) @ new), st')"
         "list_all2 (file_entry env multi la) ps new" by blast
    have "file_entry env multi la p ?e" using False f by (simp add: file_entry_def)
    with n False f
    have "process_files env multi la (p # ps) outs st = (Inr (outs @ (?e # new)), st') \<and>
             list_all2 (file_entry env multi la) (p # ps) (?e # new)" by simp
    then show ?thesis by blast
  next
    case True
    obtain r st1 where w: "extract_text_from_path env p la st = (r, st1)"
      by (cases "extract_text_from_path env p la st")
    show ?thesis
    proof (cases r)
      case (Inl exc)
      let ?e = "''[error] Failed to process '' @ name p @ '': '' @ str_exc exc"
      from Cons.IH [OF rest, of "outs @ [?e]" st1] obtain new st' where
        n: "process_files env multi la ps (outs @ [?e]) st1 = (Inr ((outs @ [?e]) @ new), st')"
           "list_all2 (file_entry env multi la) ps new" by blast
      have "file_entry env multi la p ?e"
        using True f w Inl by (auto simp: file_entry_def intro!: exI [of _ st])
      with n True f w Inl
      have "process_files env multi la (p # ps) outs st = (Inr (outs @ (?e # new)), st') \<and>
             list_all2 (file_entry env multi la) (p # ps) (?e # new)" by simp
      then show ?thesis by blast
    next
      case (Inr t)
      let ?e = "(if multi then ''# '' @ name p @ [CHR 0x0A] else []) @ text_or_placeholder t"
      from Cons.IH [OF rest, of "outs @ [?e]" st1] obtain new st' where
        n: "process_files env multi la ps (outs @ [?e]) st1 = (Inr ((outs @ [?e]) @ new), st')"
           "list_all2 (file_entry env multi la) ps new" by blast
      have "file_entry env multi la p ?e"
        using True f w Inr by (auto simp: file_entry_def intro!: exI [of _ st])
      with n True f w Inr
      have "process_files env multi la (p # ps) outs st = (Inr (outs @ (?e # new)), st') \<and>
             list_all2 (file_entry env multi la) (p # ps) (?e # new)" by (cases multi) simp_all
      then show ?thesis by blast
    qed
  qed
qed

text \<open>
  Where \<open>Path.exists\<close> returns for every resolved path, the batch driver returns a
  string: the entries of the paths, one each and in order, joined by a blank line.
\<close>

lemma batch_reports_every_file:
  fixes env :: "('img, 'page) env"
  assumes "\<forall>p \<in> set (resolve_file_paths files). \<exists>found. path_exists env p = Inr found"
  shows "\<exists>outs. fst (run_ocr_on_files env files languages st) = Inr (blank_line_joined outs) \<and>
           list_all2 (file_entry env (length (resolve_file_paths files) > 1) (languages_arg_of languages))
             (resolve_file_paths files) outs"
proof (cases "resolve_file_paths files = []")
  case True
  then have "fst (run_ocr_on_files env files languages st) = Inr (blank_line_joined [])"
    by (simp add: run_ocr_on_files_def)
  with True show ?thesis by auto
next
  case False
  let ?ps = "resolve_file_paths files"
  from process_files_entries [OF assms, of "length ?ps > 1" "languages_arg_of languages" "[]" st]
  obtain new st' where
    n: "process_files env (length ?ps > 1) (languages_arg_of languages) ?ps [] st = (Inr new, st')"
       "list_all2 (file_entry env (length ?ps > 1) (languages_arg_of languages)) ?ps new"
    by auto
  have "fst (run_ocr_on_files env files languages st) = Inr (blank_line_joined new)"
    using False n(1)
    by (simp add: run_ocr_on_files_def languages_arg_of_def Let_def join_blank_line)
  with n(2) show ?thesis by blast
qed

lemma batch_reports_every_file_example:
  "fst (run_ocr_on_files demo_env demo_files (Some [''en'']) None)
     = Inr (''# a.png'' @ [CHR 0x0A] @ ''Hello World'' @ [CHR 0x0A] @ ''Second''
            @ [CHR 0x0A, CHR 0x0A] @ ''[warning] File not found: missing.png''
            @ [CHR 0x0A, CHR 0x0A] @ ''[error] Failed to process x.docx: Unsupported file type: .docx''
            @ [CHR 0x0A, CHR 0x0A] @ ''# blank.png'' @ [CHR 0x0A] @ ''(No text detected)'')"
  by code_simp

lemma process_files_exists_raises:
  assumes "\<forall>q \<in> set pre. \<exists>found. path_exists env q = Inr found"
    and "path_exists env p = Inl exc"
  shows "fst (process_files env multi la (pre @ p # post) outs st) = Inl exc"
  using assms(1)
proof (induction pre arbitrary: outs st)
  case Nil
  show ?case using assms(2) by simp
next
  case (Cons q pre)
  then obtain found where f: "path_exists env q = Inr found" by auto
  from Cons.prems have rest: "\<forall>q \<in> set pre. \<exists>found. path_exists env q = Inr found" by simp
  obtain r st1 where w: "extract_text_from_path env q la st = (r, st1)"
    by (cases "extract_text_from_path env q la st")
  show ?case
    using f w Cons.IH [OF rest] by (cases r; cases found; cases multi) simp_all
qed

lemma batch_aborts_when_exists_raises:
  fixes env :: "('img, 'page) env"
  assumes "resolve_file_paths files = pre @ p # post"
    and "\<forall>q \<in> set pre. \<exists>found. path_exists env q = Inr found"
    and "path_exists env p = Inl exc"
  shows "fst (run_ocr_on_files env files languages st) = Inl exc"
proof -
  let ?ps = "pre @ p # post"
  obtain r st' where
    pf: "process_files env (length ?ps > 1) (languages_arg_of languages) ?ps [] st = (r, st')"
    by (cases "process_files env (length ?ps > 1) (languages_arg_of languages) ?ps [] st")
  from process_files_exists_raises [OF assms(2,3), of "length ?ps > 1" "languages_arg_of languages" post "[]" st]
    pf
  have "r = Inl exc" by simp
  with pf [unfolded languages_arg_of_def] assms(1) show ?thesis
    by (simp add: run_ocr_on_files_def Let_def)
qed

text \<open>
  Claim C9 says that the Batch Driver never propagates a per-file failure: a missing
  file gives a warning entry, a failure of the walker gives an error entry, and
  processing always continues with the next file. The loop catches every exception of
  the walker, but it calls \<open>path.exists()\<close> before the \<open>try\<close>. In a batch of three
  files whose second has a name of 300 characters, \<open>stat\<close> raises \<open>OSError\<close> (file name
  too long) for that file and the exception leaves \<open>run_ocr_on_files\<close>: the entry of
  the first file is lost and the third file is never processed.
\<close>

theorem batch_aborts_on_long_name:
  "resolve_file_paths long_name_files
     = [Path ''uploads'' ''a.png'', Path ''uploads'' (replicate 300 CHR ''a'' @ ''.png''),
        Path ''uploads'' ''b.png''] \<and>
   path_exists demo_env (Path ''uploads'' ''a.png'') = Inr True \<and>
   path_exists demo_env (Path ''uploads'' (replicate 300 CHR ''a'' @ ''.png''))
     = Inl (OSError ''[Errno 36] File name too long'') \<and>
   fst (run_ocr_on_files demo_env long_name_files None None)
     = Inl (OSError ''[Errno 36] File name too long'')"
proof -
  have r: "resolve_file_paths long_name_files
     = [Path ''uploads'' ''a.png''] @ Path ''uploads'' (replicate 300 CHR ''a'' @ ''.png'')
        # [Path ''uploads'' ''b.png'']"
    by (simp add: long_name_files_def)
  have a: "path_exists demo_env (Path ''uploads'' ''a.png'') = Inr True"
    by (simp add: demo_env_def)
  have l: "path_exists demo_env (Path ''uploads'' (replicate 300 CHR ''a'' @ ''.png''))
     = Inl (OSError ''[Errno 36] File name too long'')"
    by (simp add: demo_env_def)
  have pre: "\<forall>q \<in> set [Path ''uploads'' ''a.png'']. \<exists>found. path_exists demo_env q = Inr found"
    using a by auto
  from batch_aborts_when_exists_raises [OF r pre l]
  have "fst (run_ocr_on_files demo_env long_name_files None None)
     = Inl (OSError ''[Errno 36] File name too long'')" .
  with r a l show ?thesis by simp
qed

end
